theory Spec2Isabelle
  imports Complex_Main
begin

section \<open>Values and errors\<close>

text \<open>
  The exceptions a call can end with. \<open>ConfigurationError\<close> is the error the
  specification names; no statement of the source raises it. The others are raised by the
  interpreter or by the numerical libraries the source calls.
\<close>

datatype py_error =
    ConfigurationError
  | KeyError
  | ValueError
  | IndexError
  | AssertionError
  | OverflowError
  | ZeroDivisionError
  | TypeError

text \<open>
  A float64 as numpy computes with it: a finite value, an infinity, or NaN. Finite
  values are the reals they stand for: rounding, overflow and underflow of an operation on
  finite values and the sign of zero are not modelled. Operations on arrays and on numpy
  scalars never raise on a division by zero or an invalid operand (numpy only warns), they
  return an infinity or NaN.
\<close>

datatype npfloat = Fin real | PInf | NInf | NaN

fun np_neg :: "npfloat \<Rightarrow> npfloat" where
  "np_neg (Fin a) = Fin (- a)"
| "np_neg PInf = NInf"
| "np_neg NInf = PInf"
| "np_neg NaN = NaN"

fun np_add :: "npfloat \<Rightarrow> npfloat \<Rightarrow> npfloat" where
  "np_add NaN _ = NaN"
| "np_add _ NaN = NaN"
| "np_add (Fin a) (Fin b) = Fin (a + b)"
| "np_add PInf NInf = NaN"
| "np_add NInf PInf = NaN"
| "np_add PInf _ = PInf"
| "np_add _ PInf = PInf"
| "np_add NInf _ = NInf"
| "np_add _ NInf = NInf"

definition np_sub :: "npfloat \<Rightarrow> npfloat \<Rightarrow> npfloat" where
  "np_sub a b = np_add a (np_neg b)"

definition np_sign :: "real \<Rightarrow> npfloat \<Rightarrow> npfloat" where
  \<comment> \<open>an infinity times (or over) a finite factor: the sign of the factor decides\<close>
  "np_sign a v = (if 0 < a then v else if a < 0 then np_neg v else NaN)"

fun np_mul :: "npfloat \<Rightarrow> npfloat \<Rightarrow> npfloat" where
  "np_mul NaN _ = NaN"
| "np_mul _ NaN = NaN"
| "np_mul (Fin a) (Fin b) = Fin (a * b)"
| "np_mul (Fin a) PInf = np_sign a PInf"
| "np_mul (Fin a) NInf = np_sign a NInf"
| "np_mul PInf (Fin b) = np_sign b PInf"
| "np_mul NInf (Fin b) = np_sign b NInf"
| "np_mul PInf PInf = PInf"
| "np_mul NInf NInf = PInf"
| "np_mul PInf NInf = NInf"
| "np_mul NInf PInf = NInf"

fun np_div :: "npfloat \<Rightarrow> npfloat \<Rightarrow> npfloat" where
  "np_div NaN _ = NaN"
| "np_div _ NaN = NaN"
| "np_div (Fin a) (Fin b) = (if b \<noteq> 0 then Fin (a / b) else np_sign a PInf)"
| "np_div (Fin a) _ = Fin 0"
| "np_div PInf (Fin b) = (if 0 \<le> b then PInf else NInf)"
| "np_div NInf (Fin b) = (if 0 \<le> b then NInf else PInf)"
| "np_div _ _ = NaN"

fun np_log :: "npfloat \<Rightarrow> npfloat" where
  "np_log (Fin a) = (if 0 < a then Fin (ln a) else if a = 0 then NInf else NaN)"
| "np_log PInf = PInf"
| "np_log _ = NaN"

fun np_log2 :: "npfloat \<Rightarrow> npfloat" where
  "np_log2 (Fin a) = (if 0 < a then Fin (log 2 a) else if a = 0 then NInf else NaN)"
| "np_log2 PInf = PInf"
| "np_log2 _ = NaN"

fun np_exp :: "npfloat \<Rightarrow> npfloat" where
  "np_exp (Fin a) = Fin (exp a)"
| "np_exp PInf = PInf"
| "np_exp NInf = Fin 0"
| "np_exp NaN = NaN"

text \<open>
  \<open>x ** y\<close> on float64 values is C's \<open>pow\<close>: \<open>pow(x, 0)\<close> and
  \<open>pow(1, y)\<close> are 1 even for a NaN operand, a negative base with a fractional
  exponent gives NaN, and the infinities follow the magnitude of the base and the sign of
  the exponent.
\<close>

definition is_int :: "real \<Rightarrow> bool" where
  "is_int b = (b = of_int \<lfloor>b\<rfloor>)"

definition is_odd_int :: "real \<Rightarrow> bool" where
  "is_odd_int b = (is_int b \<and> odd \<lfloor>b\<rfloor>)"

definition np_pow :: "npfloat \<Rightarrow> npfloat \<Rightarrow> npfloat" where
  "np_pow x y =
     (if y = Fin 0 then Fin 1
      else if x = Fin 1 then Fin 1
      else case (x, y) of
        (NaN, _) \<Rightarrow> NaN
      | (_, NaN) \<Rightarrow> NaN
      | (Fin a, Fin b) \<Rightarrow>
          if 0 < a then Fin (a powr b)
          else if a = 0 then (if 0 < b then Fin 0 else PInf)
          else if is_int b then Fin (if is_odd_int b then - (\<bar>a\<bar> powr b) else \<bar>a\<bar> powr b)
          else NaN
      | (Fin a, PInf) \<Rightarrow> if 1 < \<bar>a\<bar> then PInf else if \<bar>a\<bar> < 1 then Fin 0 else Fin 1
      | (Fin a, NInf) \<Rightarrow> if 1 < \<bar>a\<bar> then Fin 0 else if \<bar>a\<bar> < 1 then PInf else Fin 1
      | (PInf, Fin b) \<Rightarrow> if 0 < b then PInf else Fin 0
      | (PInf, PInf) \<Rightarrow> PInf
      | (PInf, NInf) \<Rightarrow> Fin 0
      | (NInf, Fin b) \<Rightarrow> if 0 < b then (if is_odd_int b then NInf else PInf) else Fin 0
      | (NInf, PInf) \<Rightarrow> PInf
      | (NInf, NInf) \<Rightarrow> Fin 0)"

text \<open>
  An array raised to a Python scalar, \<open>a ** p\<close>: for the exponent \<open>0.5\<close> numpy
  takes the square root instead of calling \<open>pow\<close> (the two differ at \<open>-inf\<close>); its
  other shortcuts (exponents 2, 1, 0 and \<open>-1\<close>) agree with \<open>pow\<close>.
\<close>

fun np_sqrt :: "npfloat \<Rightarrow> npfloat" where
  "np_sqrt (Fin a) = (if 0 \<le> a then Fin (sqrt a) else NaN)"
| "np_sqrt PInf = PInf"
| "np_sqrt _ = NaN"

definition array_pow :: "npfloat \<Rightarrow> real \<Rightarrow> npfloat" where
  "array_pow v p = (if p = 1 / 2 then np_sqrt v else np_pow v (Fin p))"

text \<open>\<open><\<close> on float64 values: false as soon as an operand is NaN.\<close>

fun np_less :: "npfloat \<Rightarrow> npfloat \<Rightarrow> bool" where
  "np_less (Fin a) (Fin b) = (a < b)"
| "np_less NInf (Fin b) = True"
| "np_less NInf PInf = True"
| "np_less (Fin a) PInf = True"
| "np_less _ _ = False"

section \<open>Query counts of canonical QAE (QAE_emulator.py)\<close>

text \<open>
  \<open>Nq_from_m\<close> with the default \<open>b10 = False\<close> (the other branch calls
  \<open>expb10\<close> of \<open>utils.misc\<close>). The number of auxiliary qubits \<open>m\<close> is a
  natural number: the caller asserts \<open>mmin >= 0\<close>, and \<open>2**m\<close> is then an
  unbounded Python integer.
\<close>

definition Nq_from_m :: "nat \<Rightarrow> int \<Rightarrow> int" where
  "Nq_from_m m nshots = (let Nq_per_shot = 2 * (2 ^ m) + 1 in Nq_per_shot * nshots)"

text \<open>
  Python's \<open>/\<close> on two integers: \<open>ZeroDivisionError\<close> on a zero divisor, and
  \<open>OverflowError\<close> when the correctly rounded quotient leaves the range of a float64,
  that is from \<open>2^1024 - 2^970\<close> on (half-way between the largest float64 and
  \<open>2^1024\<close>).
\<close>

definition py_truediv :: "int \<Rightarrow> int \<Rightarrow> py_error + real" where
  "py_truediv a b =
     (if b = 0 then Inl ZeroDivisionError
      else if 2 ^ 1024 - 2 ^ 970 \<le> \<bar>real_of_int a / real_of_int b\<bar> then Inl OverflowError
      else Inr (real_of_int a / real_of_int b))"

text \<open>\<open>round\<close> of Python 3 on a float: to the nearest integer, a tie to the even one.\<close>

definition py_round :: "real \<Rightarrow> int" where
  "py_round r =
     (let f = \<lfloor>r\<rfloor>; d = r - of_int f
      in if d < 1 / 2 then f else if 1 / 2 < d then f + 1 else if even f then f else f + 1)"

fun round_to_int :: "npfloat \<Rightarrow> py_error + int" where
  "round_to_int (Fin r) = Inr (py_round r)"
| "round_to_int NaN = Inl ValueError"
| "round_to_int _ = Inl OverflowError"

definition m_from_Nq :: "int \<Rightarrow> int \<Rightarrow> py_error + int" where
  "m_from_Nq Nq_target nshots =
     (case py_truediv Nq_target nshots of
        Inl e \<Rightarrow> Inl e
      | Inr q \<Rightarrow>
          (let m_float = np_sub (np_log2 (Fin (q - 1))) (Fin 1)
           in round_to_int m_float))"


section \<open>Binning and averaging (binning.py)\<close>

subsection \<open>numpy: evenly spaced edges\<close>

text \<open>
  \<open>np.linspace(start, stop, num)\<close>: a negative \<open>num\<close> raises; the samples are
  \<open>start + i * step\<close> and the last one is set to \<open>stop\<close> itself.
  \<open>np.logspace(start, stop, num, base = np.e)\<close> raises \<open>np.e\<close> to these powers.
\<close>

definition np_linspace :: "npfloat \<Rightarrow> npfloat \<Rightarrow> int \<Rightarrow> py_error + npfloat list" where
  "np_linspace start stop num =
     (if num < 0 then Inl ValueError
      else if num = 0 then Inr []
      else
        let delta = np_sub stop start in
        if num = 1 then Inr [np_add (np_mul (Fin 0) delta) start]
        else
          let step = np_div delta (Fin (real_of_int (num - 1)))
          in Inr (map (\<lambda>i. np_add (np_mul (Fin (real i)) step) start) [0..<nat (num - 1)]
                  @ [stop]))"

definition np_logspace :: "npfloat \<Rightarrow> npfloat \<Rightarrow> int \<Rightarrow> py_error + npfloat list" where
  "np_logspace start stop num =
     (case np_linspace start stop num of
        Inl e \<Rightarrow> Inl e
      | Inr ys \<Rightarrow> Inr (map (np_pow (Fin (exp 1))) ys))"

subsection \<open>pandas: the frame, cut, groupby\<close>

text \<open>
  A row of the \<open>DataFrame\<close> that \<open>bin_and_average\<close> builds. The column
  \<open>slope\<close> exists only when a fixed point was given (\<open>None\<close>: no such column);
  the column \<open>bin\<close> holds the index of the interval \<open>cut\<close> assigned, \<open>None\<close>
  for a missing value (before \<open>cut\<close>, or a sample outside every interval).
\<close>

record row =
  r_x :: npfloat
  r_y :: npfloat
  r_slope :: "npfloat option"
  r_bin :: "nat option"

definition monotonic_increasing :: "npfloat list \<Rightarrow> bool" where
  "monotonic_increasing bs =
     (NaN \<notin> set bs \<and> sorted_wrt (\<lambda>a b. a = b \<or> np_less a b) bs)"

definition searchsorted_left :: "npfloat list \<Rightarrow> npfloat \<Rightarrow> nat" where
  \<comment> \<open>the first position whose edge is not below \<open>v\<close>; a NaN goes past the end\<close>
  "searchsorted_left bs v =
     (if v = NaN then length bs else length (takeWhile (\<lambda>b. np_less b v) bs))"

text \<open>
  \<open>pandas.cut(x, bins = bins, include_lowest = True)\<close> for a sequence of edges (pandas 2):
  the edges must increase monotonically and, unless there are exactly two, be unique
  (\<open>ValueError\<close>); the intervals are closed on the right; a value equal to the first
  edge is put into the first interval (the read of \<open>bins[0]\<close> fails on no edges); a
  value outside every interval is missing.
\<close>

definition cut :: "npfloat list \<Rightarrow> npfloat list \<Rightarrow> py_error + nat option list" where
  "cut xs bins =
     (if \<not> monotonic_increasing bins then Inl ValueError
      else if \<not> distinct bins \<and> length bins \<noteq> 2 then Inl ValueError
      else if bins = [] then Inl IndexError
      else Inr (map (\<lambda>v.
              let ids = (if v = hd bins then 1 else searchsorted_left bins v)
              in if v = NaN \<or> ids = length bins \<or> ids = 0 then None else Some (ids - 1)) xs))"

text \<open>
  \<open>groupby('bin', observed = True)\<close>: one group per interval that holds a row, in the
  order of the intervals; rows with a missing \<open>bin\<close> belong to no group.
\<close>

definition group_keys :: "row list \<Rightarrow> nat list" where
  "group_keys df = sort (remdups (concat (map (\<lambda>r. case r_bin r of None \<Rightarrow> [] | Some k \<Rightarrow> [k]) df)))"

definition group_rows :: "row list \<Rightarrow> nat \<Rightarrow> row list" where
  "group_rows df k = filter (\<lambda>r. r_bin r = Some k) df"

definition group_indices :: "row list \<Rightarrow> nat \<Rightarrow> nat list" where
  "group_indices df k = filter (\<lambda>i. r_bin (df ! i) = Some k) [0..<length df]"

text \<open>The group statistics skip NaN; a group with nothing left gives NaN.\<close>

definition skipna :: "npfloat list \<Rightarrow> npfloat list" where
  "skipna vs = filter (\<lambda>v. v \<noteq> NaN) vs"

definition np_sum :: "npfloat list \<Rightarrow> npfloat" where
  "np_sum vs = foldl np_add (Fin 0) vs"

definition group_mean :: "npfloat list \<Rightarrow> npfloat" where
  "group_mean vs =
     (let ws = skipna vs
      in if ws = [] then NaN else np_div (np_sum ws) (Fin (real (length ws))))"

fun np_insort :: "npfloat \<Rightarrow> npfloat list \<Rightarrow> npfloat list" where
  "np_insort v [] = [v]"
| "np_insort v (w # ws) = (if np_less w v then w # np_insort v ws else v # w # ws)"

definition np_sort :: "npfloat list \<Rightarrow> npfloat list" where
  "np_sort vs = foldr np_insort vs []"

definition group_median :: "npfloat list \<Rightarrow> npfloat" where
  "group_median vs =
     (let ws = np_sort (skipna vs); n = length ws
      in if n = 0 then NaN
         else if odd n then ws ! (n div 2)
         else np_div (np_add (ws ! (n div 2)) (ws ! (n div 2 - 1))) (Fin 2))"

definition aggregate :: "(npfloat list \<Rightarrow> npfloat) \<Rightarrow> row list \<Rightarrow> row list" where
  \<comment> \<open>\<open>df.groupby(['bin'], observed = True).mean()\<close>, or \<open>.median()\<close>\<close>
  "aggregate stat df =
     map (\<lambda>k. let g = group_rows df k
              in \<lparr>r_x = stat (map r_x g), r_y = stat (map r_y g),
                  r_slope = map_option stat (those (map r_slope g)), r_bin = Some k\<rparr>)
       (group_keys df)"

definition dropna :: "row list \<Rightarrow> row list" where
  "dropna df = filter (\<lambda>r. r_x r \<noteq> NaN \<and> r_y r \<noteq> NaN \<and> r_slope r \<noteq> Some NaN) df"

subsection \<open>The functions of binning.py\<close>

definition strats :: "string list" where
  "strats = [''y_mean'', ''y_median'', ''slope_mean'', ''slope_median'', ''fit'', ''spline'']"

datatype scale = Log | Linear

text \<open>
  \<open>bin_by_values\<close> returns the frame with its new column \<open>bin\<close>, the groups
  \<open>{interval: indices}\<close> in the order of the intervals, and the edges.
\<close>

definition bin_by_values ::
  "row list \<Rightarrow> real \<times> real \<Rightarrow> int \<Rightarrow> scale
     \<Rightarrow> py_error + (row list \<times> (nat \<times> nat list) list \<times> npfloat list)" where
  "bin_by_values df xrange nbins scale =
     (case (case scale of
              Log \<Rightarrow> np_logspace (np_log (Fin (fst xrange))) (np_log (Fin (snd xrange))) nbins
            | Linear \<Rightarrow> np_linspace (Fin (fst xrange)) (Fin (snd xrange)) nbins) of
        Inl e \<Rightarrow> Inl e
      | Inr bins \<Rightarrow>
          (case cut (map r_x df) bins of
             Inl e \<Rightarrow> Inl e
           | Inr bs \<Rightarrow>
               let df' = map (\<lambda>(r, b). r\<lparr>r_bin := b\<rparr>) (zip df bs);
                   binned_indices = map (\<lambda>k. (k, group_indices df' k)) (group_keys df')
               in Inr (df', binned_indices, bins)))"

definition group_points ::
  "real list \<Rightarrow> real list \<Rightarrow> (nat \<times> nat list) list \<Rightarrow> (real \<times> real) list list" where
  "group_points xs ys binned_indices =
     map (\<lambda>(key, idx_list). zip (map (\<lambda>i. xs ! i) idx_list) (map (\<lambda>i. ys ! i) idx_list))
       binned_indices"

definition eval_power_function :: "npfloat \<Rightarrow> npfloat \<Rightarrow> real \<times> real \<Rightarrow> npfloat" where
  "eval_power_function x pw fixed_point =
     (let (x0, y0) = fixed_point; const = x0 * y0
      in np_mul (Fin const) (np_pow x pw))"

text \<open>
  The decorator \<open>logscale\<close> takes the logarithm of every coordinate of the arguments
  (with numpy: no exception) before it calls the function.
\<close>

definition logscale ::
  "(npfloat \<times> npfloat \<Rightarrow> npfloat \<times> npfloat \<Rightarrow> npfloat)
     \<Rightarrow> real \<times> real \<Rightarrow> real \<times> real \<Rightarrow> npfloat" where
  "logscale f reference point =
     f (np_log (Fin (fst reference)), np_log (Fin (snd reference)))
       (np_log (Fin (fst point)), np_log (Fin (snd point)))"

definition calculate_slope :: "real \<times> real \<Rightarrow> real \<times> real \<Rightarrow> npfloat" where
  "calculate_slope =
     logscale (\<lambda>reference point.
       let (x0, y0) = reference; (x, y) = point
       in np_div (np_sub y0 y) (np_sub x0 x))"

text \<open>
  Lines 35 to 44 of \<open>bin_and_average\<close>: the frame of the samples, with the slope of
  every sample relative to the squared fixed point when a fixed point is given. The
  \<open>DataFrame\<close> constructor raises on columns of different lengths.
\<close>

definition make_frame ::
  "real list \<Rightarrow> real list \<Rightarrow> (real \<times> real) option \<Rightarrow> string \<Rightarrow> py_error + row list" where
  "make_frame xs ys fixed_point strategy =
     (case fixed_point of
        None \<Rightarrow>
          if strategy = ''slope'' then Inl AssertionError
          else if length xs \<noteq> length ys then Inl ValueError
          else Inr (map (\<lambda>(x, y). \<lparr>r_x = Fin x, r_y = Fin y, r_slope = None, r_bin = None\<rparr>)
                      (zip xs ys))
      | Some fp \<Rightarrow>
          let fixed_point_sq = (fst fp, (snd fp)\<^sup>2);
              slopes = map (\<lambda>(x, y). calculate_slope fixed_point_sq (x, y)) (zip xs ys)
          in if length xs \<noteq> length ys then Inl ValueError
             else Inr (map (\<lambda>((x, y), s).
                        \<lparr>r_x = Fin x, r_y = Fin y, r_slope = Some s, r_bin = None\<rparr>)
                      (zip (zip xs ys) slopes)))"

text \<open>Lines 60 to 74: the statistics of every group, in the log domain when asked.\<close>

definition log_columns :: "row list \<Rightarrow> row list" where
  "log_columns df = map (\<lambda>r. r\<lparr>r_x := np_log (r_x r), r_y := np_log (r_y r)\<rparr>) df"

definition exp_columns :: "row list \<Rightarrow> row list" where
  "exp_columns df = map (\<lambda>r. r\<lparr>r_x := np_exp (r_x r), r_y := np_exp (r_y r)\<rparr>) df"

definition reduce_frame :: "row list \<Rightarrow> string \<Rightarrow> bool \<Rightarrow> row list" where
  "reduce_frame df strategy logdomain =
     (let df1 = (if logdomain then log_columns df else df);
          df2 = (if strategy = ''y_mean'' \<or> strategy = ''slope_mean''
                 then dropna (aggregate group_mean df1) else df1);
          df3 = (if strategy = ''y_median'' \<or> strategy = ''slope_median''
                 then dropna (aggregate group_median df2) else df2)
      in if logdomain then exp_columns df3 else df3)"

text \<open>
  The range in log space, moved inwards by half a bin width at both ends (strategies
  \<open>fit\<close> and \<open>spline\<close>).
\<close>

definition shrink_range :: "real \<times> real \<Rightarrow> int \<Rightarrow> npfloat \<times> npfloat" where
  "shrink_range xrange nbins =
     (let lo = np_log (Fin (fst xrange)); hi = np_log (Fin (snd xrange));
          binwidth = np_div (np_sub hi lo) (Fin (real_of_int nbins))
      in (np_add lo (np_div binwidth (Fin 2)), np_sub hi (np_div binwidth (Fin 2))))"

definition slope_of :: "row \<Rightarrow> npfloat" where
  "slope_of r = (case r_slope r of Some s \<Rightarrow> s | None \<Rightarrow> NaN)"

text \<open>
  Lines 76 to 121: the values of the curve. The two fits of scipy are parameters:
  \<open>curve_fit fixed_point xs ys\<close> stands for
  \<open>opt.curve_fit(f, xs, ys)\<close> with \<open>f\<close> the power function through
  \<open>fixed_point\<close>, and gives the fitted exponent; \<open>lsq_spline xs ys t\<close> stands for
  \<open>interp.LSQUnivariateSpline(xs, ys, t)\<close>, and gives the spline. Both may raise.
  Reading the column \<open>slope\<close> of a frame that has none is a \<open>KeyError\<close>;
  unpacking a fixed point that is \<open>None\<close> is a \<open>TypeError\<close>. For
  \<open>fit\<close> and \<open>spline\<close> the root of every sample y is taken one number at a
  time, and only the fits see it (the root of a negative y is NaN here, as for a numpy
  scalar).
\<close>

definition strategy_values ::
  "((real \<times> real) option \<Rightarrow> npfloat list \<Rightarrow> npfloat list \<Rightarrow> py_error + npfloat)
     \<Rightarrow> (npfloat list \<Rightarrow> npfloat list \<Rightarrow> npfloat list \<Rightarrow> py_error + (npfloat list \<Rightarrow> npfloat list))
     \<Rightarrow> row list \<Rightarrow> real list \<Rightarrow> real \<times> real \<Rightarrow> (real \<times> real) option \<Rightarrow> int \<Rightarrow> real \<Rightarrow> string
     \<Rightarrow> py_error + (npfloat list \<times> npfloat list)" where
  "strategy_values curve_fit lsq_spline df ys xrange fixed_point nbins ypower strategy =
     (let xs = map r_x df in
      if strategy = ''y_mean'' \<or> strategy = ''y_median'' then
        Inr (xs, map (\<lambda>r. array_pow (r_y r) ypower) df)
      else if strategy = ''slope_mean'' \<or> strategy = ''slope_median'' then
        (case fixed_point of
           None \<Rightarrow> Inl KeyError
         | Some fp \<Rightarrow>
             Inr (xs, map (\<lambda>r. array_pow (eval_power_function (r_x r) (slope_of r) fp) (1 / 2))
                        df))
      else if strategy = ''fit'' then
        (let ys1 = map (\<lambda>y. np_pow (Fin y) (Fin (1 / 2))) ys in
         case curve_fit fixed_point xs ys1 of
           Inl e \<Rightarrow> Inl e
         | Inr slope \<Rightarrow>
             (case np_logspace (fst (shrink_range xrange nbins))
                     (snd (shrink_range xrange nbins)) nbins of
                Inl e \<Rightarrow> Inl e
              | Inr xs' \<Rightarrow>
                  (case fixed_point of
                     None \<Rightarrow> if xs' = [] then Inr (xs', []) else Inl TypeError
                   | Some fp \<Rightarrow> Inr (xs', map (\<lambda>x. eval_power_function x slope fp) xs'))))
      else if strategy = ''spline'' then
        (let ys1 = map (\<lambda>y. np_pow (Fin y) (Fin (1 / 2))) ys in
         case np_logspace (np_log (Fin (fst xrange))) (np_log (Fin (snd xrange))) nbins of
           Inl e \<Rightarrow> Inl e
         | Inr knots \<Rightarrow>
             (case lsq_spline xs ys1 (butlast (tl knots)) of
                Inl e \<Rightarrow> Inl e
              | Inr sp \<Rightarrow>
                  (case np_logspace (fst (shrink_range xrange nbins))
                          (snd (shrink_range xrange nbins)) nbins of
                     Inl e \<Rightarrow> Inl e
                   | Inr xs' \<Rightarrow> Inr (xs', sp xs'))))
      else Inr (xs, map Fin ys))"

text \<open>Lines 123 to 127: every point of \<open>add_after\<close> is inserted at position 0.\<close>

definition insert_points ::
  "(real \<times> real) list option \<Rightarrow> npfloat list \<times> npfloat list \<Rightarrow> npfloat list \<times> npfloat list" where
  "insert_points add_after xys =
     (case add_after of
        None \<Rightarrow> xys
      | Some points \<Rightarrow>
          foldl (\<lambda>(xs, ys) point. (Fin (fst point) # xs, Fin (snd point) # ys)) xys points)"

text \<open>
  What \<open>bin_and_average\<close> returns with \<open>full_output\<close>; without it, only the first
  two components.
\<close>

record aggregated =
  agg_xs :: "npfloat list"
  agg_ys :: "npfloat list"
  agg_bins :: "npfloat list"
  agg_groups :: "(real \<times> real) list list"

text \<open>
  \<open>bin_and_average\<close>. The samples are finite floats, the fixed point a pair of them.
  \<open>min(xs)\<close> raises on no samples. The lookup \<open>STRAT_USED[strategy]\<close> is made for
  every call, also a silent one, and raises \<open>KeyError\<close> for a name that is not in
  \<open>strats\<close>; the flags of \<open>STRAT_USED\<close> only decide whether a line is printed, so the
  dictionary and the printing are left out.
\<close>

definition bin_and_average ::
  "((real \<times> real) option \<Rightarrow> npfloat list \<Rightarrow> npfloat list \<Rightarrow> py_error + npfloat)
     \<Rightarrow> (npfloat list \<Rightarrow> npfloat list \<Rightarrow> npfloat list \<Rightarrow> py_error + (npfloat list \<Rightarrow> npfloat list))
     \<Rightarrow> real list \<Rightarrow> real list \<Rightarrow> (real \<times> real) option \<Rightarrow> int \<Rightarrow> real
     \<Rightarrow> (real \<times> real) list option \<Rightarrow> string \<Rightarrow> bool \<Rightarrow> py_error + aggregated" where
  "bin_and_average curve_fit lsq_spline xs ys fixed_point nbins ypower add_after strategy logdomain =
     (if xs = [] then Inl ValueError
      else
        let xrange = (Min (set xs), Max (set xs)) in
        case make_frame xs ys fixed_point strategy of
          Inl e \<Rightarrow> Inl e
        | Inr df \<Rightarrow>
            if strategy \<notin> set strats then Inl KeyError
            else
              (case bin_by_values df xrange (nbins + 1) Log of
                 Inl e \<Rightarrow> Inl e
               | Inr (df_binned, binned_indices, bins) \<Rightarrow>
                   let grouped_points = group_points xs ys binned_indices;
                       df_reduced = reduce_frame df_binned strategy logdomain
                   in case strategy_values curve_fit lsq_spline df_reduced ys xrange fixed_point
                             nbins ypower strategy of
                        Inl e \<Rightarrow> Inl e
                      | Inr xys \<Rightarrow>
                          Inr \<lparr>agg_xs = fst (insert_points add_after xys),
                               agg_ys = snd (insert_points add_after xys),
                               agg_bins = bins, agg_groups = grouped_points\<rparr>))"

section \<open>Running the trials (BAE_testing.py)\<close>

text \<open>
  One run of the estimator gives three lists of the same length: the numbers of queries,
  the squared errors and the standard deviations, ordered by step.
\<close>

type_synonym run_trace = "real list \<times> real list \<times> real list"

text \<open>
  Modelled from the spec: \<open>Runner.run\<close> and \<open>BAERunsData\<close> of
  \<open>src/utils/running.py\<close>, which is not among the sources; \<open>BAE_testing.py\<close> only
  calls them. After the specification, the runner executes the trial function once per
  trial, one trial after the other, and checks for a cancellation between trials only; a
  cancelled run keeps the trials completed so far; the data of the trials are concatenated
  in the order of the trials; and the number of completed trials is what \<open>run\<close>
  returns. \<open>cancel = Some k\<close> stands for an abort raised once \<open>k\<close> trials have
  completed, \<open>None\<close> for no abort.
\<close>

definition completed_trials :: "nat \<Rightarrow> nat option \<Rightarrow> nat" where
  "completed_trials nruns cancel = (case cancel of None \<Rightarrow> nruns | Some k \<Rightarrow> min nruns k)"

definition add_run_data :: "run_trace \<Rightarrow> run_trace \<Rightarrow> run_trace" where
  "add_run_data rdata t =
     (case (rdata, t) of ((nqs, sqes, stds), (n, e, s)) \<Rightarrow> (nqs @ n, sqes @ e, stds @ s))"

definition runner_run :: "(nat \<Rightarrow> run_trace) \<Rightarrow> nat \<Rightarrow> nat option \<Rightarrow> nat \<times> run_trace" where
  "runner_run f nruns cancel =
     (let done = completed_trials nruns cancel
      in (done, foldl add_run_data ([], [], []) (map f [0..<done])))"

text \<open>
  \<open>TestBAE.sqe_evolution_multiple\<close> (lines 119 to 143) returns nothing; what it does
  with the collected data is the sequence of calls it makes after the run, in order. The
  two flags are the attributes \<open>silent\<close> and \<open>save\<close> of the object.
\<close>

datatype action =
    Get_lists
  | Get_descriptors
  | Print_stats_several
  | Create_estdata run_trace
  | Process_and_plot run_trace
  | Create_execdata nat
  | Save_to_file

definition sqe_evolution_multiple ::
  "bool \<Rightarrow> bool \<Rightarrow> (nat \<Rightarrow> run_trace) \<Rightarrow> nat \<Rightarrow> nat option \<Rightarrow> nat \<times> action list" where
  "sqe_evolution_multiple silent save sqe_evolution nruns cancel =
     (let (nruns', full) = runner_run sqe_evolution nruns cancel;
          reads = [Get_lists, Get_descriptors]
      in if nruns' = 0 then (nruns', reads)
         else (nruns',
               reads @ (if \<not> silent then [Print_stats_several] else [])
                 @ [Create_estdata full, Process_and_plot full]
                 @ (if save then [Create_execdata nruns', Save_to_file] else [])))"

section \<open>Properties\<close>

subsection \<open>Query counts and their inverse\<close>

lemma py_round_of_int: "py_round (of_int k) = k"
  by (simp add: py_round_def)

lemma Nq_from_m_quotient:
  assumes "1 \<le> nshots"
  shows "real_of_int (Nq_from_m m nshots) / real_of_int nshots = 2 ^ (m + 1) + 1"
  using assms by (simp add: Nq_from_m_def)

text \<open>
  C10 (as amended). For every number of qubits \<open>m\<close> from 0 to 1022 and every
  \<open>nshots >= 1\<close>, converting \<open>m\<close> to its query count and back recovers exactly
  \<open>m\<close>: \<open>m_from_Nq(Nq_from_m(m, nshots), nshots) == m\<close>.
\<close>

theorem m_from_Nq_inverts_Nq_from_m:
  assumes "m \<le> 1022" and "1 \<le> nshots"
  shows "m_from_Nq (Nq_from_m m nshots) nshots = Inr (int m)"
proof -
  have q: "real_of_int (Nq_from_m m nshots) / real_of_int nshots = 2 ^ (m + 1) + 1"
    using assms(2) by (rule Nq_from_m_quotient)
  have "(2::real) ^ (m + 1) \<le> 2 ^ 1023"
    using assms(1) by (intro power_increasing) auto
  then have small: "\<not> (2 ^ 1024 - 2 ^ 970 \<le> \<bar>(2::real) ^ (m + 1) + 1\<bar>)"
    by simp
  have nz: "nshots \<noteq> 0" using assms(2) by simp
  have lg: "log 2 (2 ^ (m + 1)) = real (m + 1)"
    by (subst log_nat_power) simp_all
  show ?thesis
    using nz small lg py_round_of_int[of "int m"]
    by (simp add: m_from_Nq_def py_truediv_def q np_sub_def)
qed

theorem m_from_Nq_inverts_Nq_from_m_witness:
  "(3::nat) \<le> 1022 \<and> (1::int) \<le> 100 \<and> m_from_Nq (Nq_from_m 3 100) 100 = Inr 3"
  using m_from_Nq_inverts_Nq_from_m[of 3 100] by simp

text \<open>
  C10 as stated fails from \<open>m = 1023\<close> on: the quotient \<open>Nq_target/nshots\<close> is
  \<open>2^1024 + 1\<close>, which no float64 holds, and the division raises.
\<close>

theorem m_from_Nq_overflow_counterexample:
  "m_from_Nq (Nq_from_m 1023 1) 1 = Inl OverflowError"
  by (simp add: m_from_Nq_def py_truediv_def Nq_from_m_def)


subsection \<open>Slopes\<close>

lemma calculate_slope_eq:
  "calculate_slope (x0, y0) (x, y) =
     np_div (np_sub (np_log (Fin y0)) (np_log (Fin y))) (np_sub (np_log (Fin x0)) (np_log (Fin x)))"
  by (simp add: calculate_slope_def logscale_def)

lemma calculate_slope_finite:
  assumes "0 < x0" "0 < y0" "0 < x" "0 < y" "x \<noteq> x0"
  shows "calculate_slope (x0, y0) (x, y) = Fin ((ln y0 - ln y) / (ln x0 - ln x))"
  using assms by (simp add: calculate_slope_eq np_sub_def)

lemma make_frame_Some:
  assumes "length xs = length ys"
  shows "make_frame xs ys (Some (x0, y0)) strategy =
    Inr (map (\<lambda>(x, y). \<lparr>r_x = Fin x, r_y = Fin y,
               r_slope = Some (calculate_slope (x0, y0\<^sup>2) (x, y)), r_bin = None\<rparr>) (zip xs ys))"
proof -
  have "map (\<lambda>((x, y), s). \<lparr>r_x = Fin x, r_y = Fin y, r_slope = Some s, r_bin = None\<rparr>)
          (zip zs (map (\<lambda>(x, y). calculate_slope (x0, y0\<^sup>2) (x, y)) zs)) =
        map (\<lambda>(x, y). \<lparr>r_x = Fin x, r_y = Fin y,
               r_slope = Some (calculate_slope (x0, y0\<^sup>2) (x, y)), r_bin = None\<rparr>) zs" for zs
    by (induction zs) auto
  then show ?thesis using assms by (simp add: make_frame_def)
qed

lemma make_frame_None:
  assumes "length xs = length ys" and "strategy \<noteq> ''slope''"
  shows "make_frame xs ys None strategy =
    Inr (map (\<lambda>(x, y). \<lparr>r_x = Fin x, r_y = Fin y, r_slope = None, r_bin = None\<rparr>) (zip xs ys))"
  using assms by (simp add: make_frame_def)

text \<open>
  C6. With a fixed point \<open>(x0, y0)\<close>, the slope stored for the sample \<open>(x, y)\<close> is
  \<open>(log(y0\<^sup>2) - log(y)) / (log(x0) - log(x))\<close>: the y-coordinate of the fixed point is
  squared before the slope is taken in log space. The first equation is the formula in
  numpy's arithmetic, for every sample; the second is its value as a real number where
  the logarithms and the quotient are defined.
\<close>

theorem slope_squares_fixed_point:
  assumes "length xs = length ys" and "i < length xs"
  shows "\<exists>df. make_frame xs ys (Some (x0, y0)) strategy = Inr df \<and> length df = length xs \<and>
           r_slope (df ! i) =
             Some (np_div (np_sub (np_log (Fin (y0\<^sup>2))) (np_log (Fin (ys ! i))))
                          (np_sub (np_log (Fin x0)) (np_log (Fin (xs ! i))))) \<and>
           (0 < x0 \<and> y0 \<noteq> 0 \<and> 0 < xs ! i \<and> 0 < ys ! i \<and> xs ! i \<noteq> x0 \<longrightarrow>
              r_slope (df ! i) = Some (Fin ((ln (y0\<^sup>2) - ln (ys ! i)) / (ln x0 - ln (xs ! i)))))"
proof -
  let ?df = "map (\<lambda>(x, y). \<lparr>r_x = Fin x, r_y = Fin y,
               r_slope = Some (calculate_slope (x0, y0\<^sup>2) (x, y)), r_bin = None\<rparr>) (zip xs ys)"
  have fr: "make_frame xs ys (Some (x0, y0)) strategy = Inr ?df"
    using assms(1) by (rule make_frame_Some)
  have len: "length ?df = length xs" using assms(1) by simp
  have sl: "r_slope (?df ! i) = Some (calculate_slope (x0, y0\<^sup>2) (xs ! i, ys ! i))"
    using assms by simp
  have fin: "calculate_slope (x0, y0\<^sup>2) (xs ! i, ys ! i) =
      Fin ((ln (y0\<^sup>2) - ln (ys ! i)) / (ln x0 - ln (xs ! i)))"
    if "0 < x0" "y0 \<noteq> 0" "0 < xs ! i" "0 < ys ! i" "xs ! i \<noteq> x0"
    using that by (intro calculate_slope_finite) auto
  show ?thesis
    using fr len sl fin by (auto simp add: calculate_slope_eq)
qed

theorem slope_squares_fixed_point_witness:
  "\<exists>df. make_frame [1000, 10] [1 / 100, 1 / 4] (Some (100, 1 / 10)) ''slope_mean'' = Inr df \<and>
      length df = 2 \<and>
      r_slope (df ! 0) = Some (Fin ((ln ((1 / 10)\<^sup>2) - ln (1 / 100)) / (ln 100 - ln 1000)))"
  using slope_squares_fixed_point[of "[1000, 10]" "[1 / 100, 1 / 4]" 0 100 "1 / 10" "''slope_mean''"]
  by auto

subsection \<open>Points added after the aggregation\<close>

lemma insert_points_Some:
  "insert_points (Some points) (xs, ys) =
     (map (\<lambda>p. Fin (fst p)) (rev points) @ xs, map (\<lambda>p. Fin (snd p)) (rev points) @ ys)"
proof -
  have "foldl (\<lambda>(xs, ys) point. (Fin (fst point) # xs, Fin (snd point) # ys)) (xs, ys) points =
     (map (\<lambda>p. Fin (fst p)) (rev points) @ xs, map (\<lambda>p. Fin (snd p)) (rev points) @ ys)"
    by (induction points arbitrary: xs ys) simp_all
  then show ?thesis by (simp add: insert_points_def)
qed

lemma insert_points_None: "insert_points None xys = xys"
  by (simp add: insert_points_def)

text \<open>
  C8. For every strategy, a call with \<open>add_after\<close> points returns what the call without
  them returns, with all the points put in front: the output starts with the
  \<open>add_after\<close> points (the last one inserted comes first), and the aggregated pairs
  follow unchanged. The call fails exactly when the call without points fails.
\<close>

theorem add_after_prepended:
  "bin_and_average cf sp xs ys fp nbins ypower (Some points) strategy logdomain =
     (case bin_and_average cf sp xs ys fp nbins ypower None strategy logdomain of
        Inl e \<Rightarrow> Inl e
      | Inr r \<Rightarrow>
          Inr (r\<lparr>agg_xs := map (\<lambda>p. Fin (fst p)) (rev points) @ agg_xs r,
                 agg_ys := map (\<lambda>p. Fin (snd p)) (rev points) @ agg_ys r\<rparr>))"
  by (auto simp add: bin_and_average_def insert_points_None insert_points_Some Let_def
      split: sum.splits prod.splits)

subsection \<open>Unknown strategy names\<close>

text \<open>
  C3 (as amended). A call with a strategy name that is not one of the six supported names
  fails for every PointSet, though never with \<open>ConfigurationError\<close>: with
  \<open>KeyError\<close>, from the lookup in \<open>STRAT_USED\<close>, unless an earlier statement has
  already raised (\<open>ValueError\<close> for no samples or for columns of different lengths,
  \<open>AssertionError\<close> for the name \<open>slope\<close> without a fixed point).
\<close>

theorem unknown_strategy_fails:
  assumes "strategy \<notin> set strats"
  shows "bin_and_average cf sp xs ys fp nbins ypower add_after strategy logdomain =
     (if xs = [] then Inl ValueError
      else if fp = None \<and> strategy = ''slope'' then Inl AssertionError
      else if length xs \<noteq> length ys then Inl ValueError
      else Inl KeyError)"
  using assms
  by (auto simp add: bin_and_average_def make_frame_def Let_def split: option.splits sum.splits)

theorem unknown_strategy_fails_witness:
  "''mean'' \<notin> set strats \<and>
   bin_and_average (\<lambda>fp xs ys. Inl ValueError) (\<lambda>xs ys t. Inl ValueError)
     [3, 5, 7] [1, 1, 1] (Some (100, 1 / 10)) 20 (1 / 2) None ''mean'' False = Inl KeyError"
  using unknown_strategy_fails[of "''mean''" "\<lambda>fp xs ys. Inl ValueError" "\<lambda>xs ys t. Inl ValueError"
      "[3, 5, 7]" "[1, 1, 1]" "Some (100, 1 / 10)" 20 "1 / 2" None False]
  by (simp add: strats_def)

text \<open>
  C3 as stated fails: the error of an unknown name is \<open>KeyError\<close>, not
  \<open>ConfigurationError\<close>.
\<close>

theorem unknown_strategy_counterexample:
  "bin_and_average (\<lambda>fp xs ys. Inl ValueError) (\<lambda>xs ys t. Inl ValueError)
     [1, 2] [1, 2] None 1 (1 / 2) None ''y_average'' False = Inl KeyError \<and>
   bin_and_average (\<lambda>fp xs ys. Inl ValueError) (\<lambda>xs ys t. Inl ValueError)
     [1, 2] [1, 2] None 1 (1 / 2) None ''y_average'' False \<noteq> Inl ConfigurationError"
  by (simp add: bin_and_average_def make_frame_def strats_def)


subsection \<open>Edges and the assignment of samples\<close>

lemma np_pow_e: "np_pow (Fin (exp 1)) (Fin b) = Fin (exp b)"
  by (simp add: np_pow_def powr_def)

lemma np_linspace_Fin:
  assumes "2 \<le> n"
  shows "np_linspace (Fin a) (Fin b) n =
     Inr (map (\<lambda>i. Fin (a + real i * ((b - a) / real_of_int (n - 1)))) [0..<nat (n - 1)] @ [Fin b])"
  using assms by (simp add: np_linspace_def np_sub_def add.commute)

lemma np_logspace_Fin:
  assumes "2 \<le> n"
  shows "np_logspace (Fin a) (Fin b) n =
     Inr (map (\<lambda>i. Fin (exp (a + real i * ((b - a) / real_of_int (n - 1))))) [0..<nat (n - 1)]
          @ [Fin (exp b)])"
  using assms by (simp add: np_logspace_def np_linspace_Fin np_pow_e comp_def)

lemma np_logspace_Fin_one: "np_logspace (Fin a) (Fin b) 1 = Inr [Fin (exp a)]"
  by (simp add: np_logspace_def np_linspace_def np_sub_def np_pow_e)

lemma np_logspace_zero: "np_logspace s t 0 = Inr []"
  by (simp add: np_logspace_def np_linspace_def)

lemma np_logspace_neg: "n < 0 \<Longrightarrow> np_logspace s t n = Inl ValueError"
  by (simp add: np_logspace_def np_linspace_def)

lemma log_edges_sorted:
  assumes "a < b" and "0 < m"
  shows "sorted_wrt np_less
     (map (\<lambda>i. Fin (exp (a + real i * ((b - a) / real m)))) [0..<m] @ [Fin (exp b)])"
proof -
  define s where "s = (b - a) / real m"
  let ?f = "\<lambda>i. Fin (exp (a + real i * s))"
  have step: "0 < s" using assms by (simp add: s_def)
  have top: "real m * s = b - a" using assms(2) by (simp add: s_def)
  have "sorted_wrt (<) [0..<m]" by simp
  then have "sorted_wrt (\<lambda>i j. np_less (?f i) (?f j)) [0..<m]"
    by (rule sorted_wrt_mono_rel[rotated]) (use step in simp)
  then have 1: "sorted_wrt np_less (map ?f [0..<m])"
    by (simp add: sorted_wrt_map)
  have 2: "np_less (?f i) (Fin (exp b))" if "i < m" for i
  proof -
    have "real i * s < real m * s"
      using that step by simp
    then show ?thesis using top by simp
  qed
  show ?thesis using 1 2 unfolding s_def by (auto simp add: sorted_wrt_append)
qed

lemma np_less_irrefl: "\<not> np_less v v"
  by (cases v) simp_all

lemma np_less_trans: "np_less u v \<Longrightarrow> np_less v w \<Longrightarrow> np_less u w"
  by (cases u; cases v; cases w) simp_all

lemma np_less_not_NaN: "np_less u v \<Longrightarrow> u \<noteq> NaN \<and> v \<noteq> NaN"
  by (cases u; cases v) simp_all

lemma strictly_sorted_distinct: "sorted_wrt np_less bs \<Longrightarrow> distinct bs"
  by (induction bs) (auto simp add: np_less_irrefl)

lemma strictly_sorted_monotonic:
  assumes "sorted_wrt np_less bs" and "NaN \<notin> set bs"
  shows "monotonic_increasing bs"
  unfolding monotonic_increasing_def
  using assms by (auto intro: sorted_wrt_mono_rel[rotated])


lemma cut_Inr:
  assumes "monotonic_increasing bins" and "distinct bins" and "bins \<noteq> []"
  shows "cut xs bins =
     Inr (map (\<lambda>v. let ids = (if v = hd bins then 1 else searchsorted_left bins v)
                   in if v = NaN \<or> ids = length bins \<or> ids = 0 then None else Some (ids - 1)) xs)"
  using assms by (simp add: cut_def)






subsection \<open>Failures of the binning\<close>

lemma np_pow_e_NaN: "np_pow (Fin (exp 1)) NaN = NaN"
  by (simp add: np_pow_def)

lemma np_log_nonpos: "lo \<le> 0 \<Longrightarrow> np_log (Fin lo) = NInf \<or> np_log (Fin lo) = NaN"
  by simp

lemma np_linspace_head_NaN:
  assumes "start = NInf \<or> start = NaN" and "1 \<le> n"
  shows "\<exists>bs. np_linspace start stop n = Inr (NaN # bs)"
proof (cases "n = 1")
  case True
  have "np_add (np_mul (Fin 0) (np_sub stop start)) start = NaN"
    using assms(1) by (cases stop) (auto simp add: np_sub_def np_sign_def)
  then show ?thesis using True by (simp add: np_linspace_def)
next
  case False
  then have n: "2 \<le> n" using assms(2) by simp
  define step where "step = np_div (np_sub stop start) (Fin (real_of_int (n - 1)))"
  have "step = PInf \<or> step = NaN"
    using assms(1) n by (cases stop) (auto simp add: step_def np_sub_def)
  then have h: "np_add (np_mul (Fin 0) step) start = NaN"
    using assms(1) by (auto simp add: np_sign_def)
  have "[0..<nat (n - 1)] = 0 # [1..<nat (n - 1)]"
    using n by (simp add: upt_conv_Cons)
  then show ?thesis
    using n h by (simp add: np_linspace_def step_def Let_def)
qed

lemma np_logspace_head_NaN:
  assumes "lo \<le> 0" and "1 \<le> n"
  shows "\<exists>bs. np_logspace (np_log (Fin lo)) (np_log (Fin hi)) n = Inr (NaN # bs)"
proof -
  obtain bs where "np_linspace (np_log (Fin lo)) (np_log (Fin hi)) n = Inr (NaN # bs)"
    using np_linspace_head_NaN[OF np_log_nonpos[OF assms(1)] assms(2)] by blast
  then show ?thesis
    by (simp add: np_logspace_def np_pow_e_NaN del: np_log.simps)
qed

lemma cut_NaN_edge: "cut xs (NaN # bs) = Inl ValueError"
  by (simp add: cut_def monotonic_increasing_def)

lemma np_linspace_error: "np_linspace s t n = Inl e \<Longrightarrow> e = ValueError"
  by (auto simp add: np_linspace_def Let_def split: if_splits)

lemma np_logspace_error: "np_logspace s t n = Inl e \<Longrightarrow> e = ValueError"
  by (auto simp add: np_logspace_def dest: np_linspace_error split: sum.splits)

lemma cut_error: "cut xs bs = Inl e \<Longrightarrow> e = ValueError \<or> e = IndexError"
  by (auto simp add: cut_def split: if_splits)

lemma bin_by_values_error:
  assumes "bin_by_values df xrange n scale = Inl e"
  shows "e = ValueError \<or> e = IndexError"
  using assms
  by (auto simp add: bin_by_values_def Let_def
      dest: np_logspace_error np_linspace_error cut_error split: sum.splits scale.splits)

lemma cut_no_edges: "cut xs [] = Inl IndexError"
  by (simp add: cut_def monotonic_increasing_def)

text \<open>
  C2 (as amended). Binning validates nothing before it processes the data and never fails
  with \<open>ConfigurationError\<close>. On a log scale with \<open>xrange[0] <= 0\<close> (and three edges
  or more) the logarithm of the lower end is \<open>-inf\<close> or NaN, the edges are NaN, and the
  call fails with the \<open>ValueError\<close> of \<open>pandas.cut\<close>; with a negative
  \<open>nbins\<close> it fails with the \<open>ValueError\<close> of numpy; with \<open>nbins = 0\<close> it fails
  with \<open>IndexError\<close> on the read of the first edge.
\<close>

theorem binning_errors:
  "(fst xrange \<le> 0 \<and> 3 \<le> nbins \<longrightarrow> bin_by_values df xrange nbins Log = Inl ValueError) \<and>
   (nbins < 0 \<longrightarrow> bin_by_values df xrange nbins scale = Inl ValueError) \<and>
   (nbins = 0 \<longrightarrow> bin_by_values df xrange nbins scale = Inl IndexError) \<and>
   bin_by_values df xrange nbins scale \<noteq> Inl ConfigurationError"
proof (intro conjI impI)
  assume a: "fst xrange \<le> 0 \<and> 3 \<le> nbins"
  obtain bs where
    "np_logspace (np_log (Fin (fst xrange))) (np_log (Fin (snd xrange))) nbins = Inr (NaN # bs)"
    using np_logspace_head_NaN[of "fst xrange" nbins "snd xrange"] a by fastforce
  then show "bin_by_values df xrange nbins Log = Inl ValueError"
    by (simp add: bin_by_values_def cut_NaN_edge del: np_log.simps)
next
  assume "nbins < 0"
  then show "bin_by_values df xrange nbins scale = Inl ValueError"
    by (cases scale) (simp_all add: bin_by_values_def np_logspace_def np_linspace_def)
next
  assume "nbins = 0"
  then show "bin_by_values df xrange nbins scale = Inl IndexError"
    by (cases scale) (simp_all add: bin_by_values_def np_logspace_def np_linspace_def cut_no_edges)
next
  show "bin_by_values df xrange nbins scale \<noteq> Inl ConfigurationError"
    using bin_by_values_error[of df xrange nbins scale ConfigurationError] by auto
qed

theorem binning_errors_witness:
  "bin_by_values [\<lparr>r_x = Fin (- 1), r_y = Fin 4, r_slope = None, r_bin = None\<rparr>,
        \<lparr>r_x = Fin 100, r_y = Fin 9, r_slope = None, r_bin = None\<rparr>] (- 1, 100) 21 Log = Inl ValueError \<and>
   bin_by_values [\<lparr>r_x = Fin 1, r_y = Fin 4, r_slope = None, r_bin = None\<rparr>] (1, 100) (- 2) Log = Inl ValueError \<and>
   bin_by_values [\<lparr>r_x = Fin 1, r_y = Fin 4, r_slope = None, r_bin = None\<rparr>] (1, 100) 0 Log = Inl IndexError"
  using binning_errors[of "(- 1, 100)" 21 "[\<lparr>r_x = Fin (- 1), r_y = Fin 4, r_slope = None, r_bin = None\<rparr>,
        \<lparr>r_x = Fin 100, r_y = Fin 9, r_slope = None, r_bin = None\<rparr>]" Log]
    binning_errors[of "(1, 100)" "- 2" "[\<lparr>r_x = Fin 1, r_y = Fin 4, r_slope = None, r_bin = None\<rparr>]" Log]
    binning_errors[of "(1, 100)" 0 "[\<lparr>r_x = Fin 1, r_y = Fin 4, r_slope = None, r_bin = None\<rparr>]" Log]
  by simp

text \<open>
  C2 as stated fails: with the lower end of the range at 0 the call fails with
  \<open>ValueError\<close>, raised by \<open>cut\<close> after the edges have been computed.
\<close>

theorem binning_counterexample:
  "bin_by_values [\<lparr>r_x = Fin 0, r_y = Fin 4, r_slope = None, r_bin = None\<rparr>,
        \<lparr>r_x = Fin 1, r_y = Fin 9, r_slope = None, r_bin = None\<rparr>] (0, 1) 3 Log = Inl ValueError"
  by (simp add: bin_by_values_def np_logspace_def np_linspace_def np_sub_def np_sign_def np_pow_def
      cut_def monotonic_increasing_def upt_conv_Cons)



subsection \<open>The power law of the slope strategies\<close>

lemma ln4: "ln (4::real) = 2 * ln 2"
proof -
  have "ln ((2::real) ^ 2) = 2 * ln 2" by (subst ln_realpow) simp_all
  then show ?thesis by simp
qed











subsection \<open>Group statistics of finite values\<close>

lemma skipna_Fin: "skipna (map Fin rs) = map Fin rs"
  by (induction rs) (simp_all add: skipna_def)

lemma foldl_np_add_Fin: "foldl np_add (Fin a) (map Fin rs) = Fin (a + sum_list rs)"
  by (induction rs arbitrary: a) (simp_all add: add.assoc)

lemma np_sum_Fin: "np_sum (map Fin rs) = Fin (sum_list rs)"
  by (simp add: np_sum_def foldl_np_add_Fin)

lemma group_mean_Fin:
  assumes "rs \<noteq> []"
  shows "group_mean (map Fin rs) = Fin (sum_list rs / real (length rs))"
  using assms by (simp add: group_mean_def skipna_Fin np_sum_Fin)

lemma sum_list_upper: "(\<And>r. r \<in> set rs \<Longrightarrow> r \<le> u) \<Longrightarrow> sum_list rs \<le> real (length rs) * u"
  by (induction rs) (auto simp add: algebra_simps intro: add_mono)

lemma sum_list_lower: "(\<And>r. r \<in> set rs \<Longrightarrow> l \<le> r) \<Longrightarrow> real (length rs) * l \<le> sum_list rs"
  by (induction rs) (auto simp add: algebra_simps intro: add_mono)

lemma mean_between:
  fixes rs :: "real list"
  assumes "rs \<noteq> []"
  shows "\<exists>a\<in>set rs. \<exists>b\<in>set rs. a \<le> sum_list rs / real (length rs) \<and> sum_list rs / real (length rs) \<le> b"
proof -
  have n: "0 < real (length rs)" using assms by simp
  have fin: "finite (set rs)" "set rs \<noteq> {}" using assms by simp_all
  have "real (length rs) * Min (set rs) \<le> sum_list rs"
    by (rule sum_list_lower) (simp add: fin)
  then have lo: "Min (set rs) \<le> sum_list rs / real (length rs)"
    using n by (simp add: pos_le_divide_eq mult.commute)
  have "sum_list rs \<le> real (length rs) * Max (set rs)"
    by (rule sum_list_upper) (simp add: fin)
  then have hi: "sum_list rs / real (length rs) \<le> Max (set rs)"
    using n by (simp add: pos_divide_le_eq mult.commute)
  show ?thesis
    using lo hi Min_in[OF fin] Max_in[OF fin] by blast
qed

lemma set_np_insort: "set (np_insort v ws) = insert v (set ws)"
  by (induction ws) auto

lemma length_np_insort: "length (np_insort v ws) = Suc (length ws)"
  by (induction ws) auto

lemma set_np_sort: "set (np_sort vs) = set vs"
  by (induction vs) (simp_all add: np_sort_def set_np_insort)

lemma length_np_sort: "length (np_sort vs) = length vs"
  by (induction vs) (simp_all add: np_sort_def length_np_insort)

lemma group_median_Fin:
  assumes "rs \<noteq> []"
  shows "\<exists>c. group_median (map Fin rs) = Fin c \<and>
           (\<exists>a\<in>set rs. \<exists>b\<in>set rs. a \<le> c \<and> c \<le> b)"
proof -
  define ws where "ws = np_sort (map Fin rs)"
  define n where "n = length ws"
  have n: "n = length rs" "0 < n" using assms by (simp_all add: n_def ws_def length_np_sort)
  have mem: "\<exists>a\<in>set rs. ws ! i = Fin a" if "i < n" for i
  proof -
    have "ws ! i \<in> set ws" using that by (simp add: n_def)
    then show ?thesis by (auto simp add: ws_def set_np_sort)
  qed
  have gm: "group_median (map Fin rs) =
      (if odd n then ws ! (n div 2)
       else np_div (np_add (ws ! (n div 2)) (ws ! (n div 2 - 1))) (Fin 2))"
  proof -
    have "length (np_sort (map Fin rs)) \<noteq> 0" using n by (simp add: ws_def n_def)
    then show ?thesis
      unfolding group_median_def skipna_Fin Let_def ws_def n_def by simp
  qed
  show ?thesis
  proof (cases "odd n")
    case True
    obtain a where "a \<in> set rs" "ws ! (n div 2) = Fin a"
      using mem[of "n div 2"] n(2) by auto
    then show ?thesis using True gm by auto
  next
    case False
    obtain a where a: "a \<in> set rs" "ws ! (n div 2) = Fin a"
      using mem[of "n div 2"] n(2) by auto
    obtain b where b: "b \<in> set rs" "ws ! (n div 2 - 1) = Fin b"
    proof -
      have "n div 2 - 1 < n" using n(2) by simp
      from mem[OF this] show ?thesis using that by auto
    qed
    have eq: "group_median (map Fin rs) = Fin ((a + b) / 2)"
      using False gm a(2) b(2) by simp
    show ?thesis
    proof (cases "a \<le> b")
      case True
      then have "a \<le> (a + b) / 2 \<and> (a + b) / 2 \<le> b" by simp
      then show ?thesis using eq a(1) b(1) by blast
    next
      case False
      then have "b \<le> (a + b) / 2 \<and> (a + b) / 2 \<le> a" by simp
      then show ?thesis using eq a(1) b(1) by blast
    qed
  qed
qed

lemma group_stat_Fin:
  assumes "stat = group_mean \<or> stat = group_median" and "rs \<noteq> []"
  shows "\<exists>c. stat (map Fin rs) = Fin c \<and> (\<exists>a\<in>set rs. \<exists>b\<in>set rs. a \<le> c \<and> c \<le> b)"
  using assms group_median_Fin[of rs] mean_between[of rs] group_mean_Fin[of rs] by auto


subsection \<open>Order of the assigned buckets\<close>

lemma cut_InrD:
  assumes "cut xs bins = Inr bs"
  shows "bins \<noteq> [] \<and>
     bs = map (\<lambda>v. let ids = (if v = hd bins then 1 else searchsorted_left bins v)
                   in if v = NaN \<or> ids = length bins \<or> ids = 0 then None else Some (ids - 1)) xs"
  using assms by (auto simp add: cut_def split: if_splits)

lemma length_takeWhile_mono:
  assumes "\<And>b. P b \<Longrightarrow> Q b"
  shows "length (takeWhile P bs) \<le> length (takeWhile Q bs)"
  using assms by (induction bs) auto

lemma np_less_Fin_mono: "np_less c (Fin a) \<Longrightarrow> a \<le> b \<Longrightarrow> np_less c (Fin b)"
  by (cases c) auto

lemma searchsorted_left_mono:
  assumes "a \<le> b"
  shows "searchsorted_left bins (Fin a) \<le> searchsorted_left bins (Fin b)"
  unfolding searchsorted_left_def
  using assms by (auto intro!: length_takeWhile_mono elim: np_less_Fin_mono)

lemma searchsorted_left_head:
  assumes "bins \<noteq> []" and "\<not> np_less (hd bins) v" and "v \<noteq> NaN"
  shows "searchsorted_left bins v = 0"
  using assms by (cases bins) (simp_all add: searchsorted_left_def)

lemma cut_order:
  assumes c: "cut xs bins = Inr bs"
    and i: "i < length xs" "xs ! i = Fin a" "bs ! i = Some k"
    and j: "j < length xs" "xs ! j = Fin b" "bs ! j = Some l"
    and kl: "k < l"
  shows "a < b"
proof (rule ccontr)
  assume "\<not> a < b"
  then have ba: "b \<le> a" by simp
  define ids where "ids = (\<lambda>v. if v = hd bins then 1 else searchsorted_left bins v)"
  have ne: "bins \<noteq> []" and bs: "bs = map (\<lambda>v. if v = NaN \<or> ids v = length bins \<or> ids v = 0
        then None else Some (ids v - 1)) xs"
    using cut_InrD[OF c] by (simp_all add: ids_def Let_def)
  have ia: "ids (Fin a) = Suc k"
    using i bs by (auto split: if_splits)
  have ib: "ids (Fin b) = Suc l"
    using j bs by (auto split: if_splits)
  have b_not_hd: "Fin b \<noteq> hd bins"
    using ib kl by (auto simp add: ids_def)
  then have sb: "searchsorted_left bins (Fin b) = Suc l"
    using ib by (simp add: ids_def)
  have sa: "Suc l \<le> searchsorted_left bins (Fin a)"
    using searchsorted_left_mono[OF ba, of bins] sb by simp
  show False
  proof (cases "Fin a = hd bins")
    case True
    then have "\<not> np_less (hd bins) (Fin b)" using ba by (auto simp flip: True)
    then have "searchsorted_left bins (Fin b) = 0"
      using ne by (intro searchsorted_left_head) auto
    then show False using sb by simp
  next
    case False
    then have "ids (Fin a) = searchsorted_left bins (Fin a)" by (simp add: ids_def)
    then show False using ia sa kl by simp
  qed
qed


subsection \<open>The aggregated x values\<close>

lemma group_keys_mem: "k \<in> set (group_keys df) \<longleftrightarrow> (\<exists>r\<in>set df. r_bin r = Some k)"
proof -
  have "set (concat (map (\<lambda>r. case r_bin r of None \<Rightarrow> [] | Some k \<Rightarrow> [k]) df)) =
      {k. \<exists>r\<in>set df. r_bin r = Some k}"
    by (induction df) (auto split: option.splits)
  then show ?thesis by (simp add: group_keys_def)
qed

lemma group_keys_sorted: "sorted_wrt (<) (group_keys df)"
  unfolding group_keys_def strict_sorted_iff by simp

lemma all_Fin_map:
  assumes "\<forall>v\<in>set vs. \<exists>a. v = Fin a"
  shows "\<exists>rs. vs = map Fin rs"
  using assms
proof (induction vs)
  case Nil
  then show ?case by simp
next
  case (Cons v vs)
  then obtain a rs where "v = Fin a" "vs = map Fin rs" by auto
  then have "v # vs = map Fin (a # rs)" by simp
  then show ?case by (rule exI)
qed

lemma group_x_between:
  assumes stat: "stat = group_mean \<or> stat = group_median"
    and fin: "\<forall>r\<in>set df. \<exists>a. r_x r = Fin a"
    and k: "k \<in> set (group_keys df)"
  shows "\<exists>c a b. stat (map r_x (group_rows df k)) = Fin c \<and> a \<le> c \<and> c \<le> b \<and>
           (\<exists>r\<in>set df. r_bin r = Some k \<and> r_x r = Fin a) \<and>
           (\<exists>r\<in>set df. r_bin r = Some k \<and> r_x r = Fin b)"
proof -
  let ?g = "group_rows df k"
  have ne: "?g \<noteq> []"
    using k by (auto simp add: group_keys_mem group_rows_def filter_empty_conv)
  have "\<forall>v\<in>set (map r_x ?g). \<exists>a. v = Fin a"
    using fin by (auto simp add: group_rows_def)
  then obtain rs where rs: "map r_x ?g = map Fin rs"
    using all_Fin_map by blast
  then have "rs \<noteq> []" using ne by auto
  then obtain c a b where c: "stat (map Fin rs) = Fin c" "a \<in> set rs" "b \<in> set rs" "a \<le> c" "c \<le> b"
    using group_stat_Fin[OF stat] by blast
  have mem: "\<exists>r\<in>set df. r_bin r = Some k \<and> r_x r = Fin v" if "v \<in> set rs" for v
  proof -
    have "Fin v \<in> set (map r_x ?g)" using that rs by simp
    then show ?thesis by (auto simp add: group_rows_def)
  qed
  show ?thesis
    using c mem[OF c(2)] mem[OF c(3)] rs by auto
qed

lemma aggregated_x_sorted:
  assumes stat: "stat = group_mean \<or> stat = group_median"
    and fin: "\<forall>r\<in>set df. \<exists>a. r_x r = Fin a"
    and ord: "\<And>r r' j k a b. r \<in> set df \<Longrightarrow> r' \<in> set df \<Longrightarrow> r_bin r = Some j \<Longrightarrow>
        r_bin r' = Some k \<Longrightarrow> j < k \<Longrightarrow> r_x r = Fin a \<Longrightarrow> r_x r' = Fin b \<Longrightarrow> a < b"
  shows "sorted_wrt np_less (map r_x (dropna (aggregate stat df)))"
proof -
  define mk where "mk = (\<lambda>k. let g = group_rows df k
              in \<lparr>r_x = stat (map r_x g), r_y = stat (map r_y g),
                  r_slope = map_option stat (those (map r_slope g)), r_bin = Some k\<rparr>)"
  have agg: "aggregate stat df = map mk (group_keys df)"
    by (simp add: aggregate_def mk_def)
  have rx: "r_x (mk k) = stat (map r_x (group_rows df k))" for k
    by (simp add: mk_def Let_def)
  have step: "np_less (r_x (mk j)) (r_x (mk k))"
    if jk: "j \<in> set (group_keys df)" "k \<in> set (group_keys df)" "j < k" for j k
  proof -
    obtain c a b r where j: "r_x (mk j) = Fin c" "c \<le> b" "r \<in> set df" "r_bin r = Some j" "r_x r = Fin b"
      using group_x_between[OF stat fin jk(1)] unfolding rx by blast
    obtain c' a' b' r' where k: "r_x (mk k) = Fin c'" "a' \<le> c'" "r' \<in> set df" "r_bin r' = Some k" "r_x r' = Fin a'"
      using group_x_between[OF stat fin jk(2)] unfolding rx by blast
    have "b < a'" using ord[OF j(3) k(3) j(4) k(4) jk(3) j(5) k(5)] .
    then show ?thesis using j k by simp
  qed
  have "sorted_wrt (\<lambda>j k. np_less (r_x (mk j)) (r_x (mk k))) (group_keys df)"
    using group_keys_sorted[of df] step by (rule sorted_wrt_mono_rel[rotated])
  then have "sorted_wrt np_less (map r_x (map mk (group_keys df)))"
    by (simp add: sorted_wrt_map)
  then have "sorted_wrt np_less (map r_x (filter (\<lambda>r. r_x r \<noteq> NaN \<and> r_y r \<noteq> NaN \<and> r_slope r \<noteq> Some NaN) (map mk (group_keys df))))"
    by (simp add: sorted_wrt_map sorted_wrt_filter)
  then show ?thesis by (simp add: agg dropna_def)
qed

lemma aggregated_x_lower:
  assumes stat: "stat = group_mean \<or> stat = group_median"
    and fin: "\<forall>r\<in>set df. \<exists>a. r_x r = Fin a"
    and r: "r \<in> set (dropna (aggregate stat df))"
  shows "\<exists>c a. r_x r = Fin c \<and> a \<le> c \<and> (\<exists>r'\<in>set df. r_x r' = Fin a)"
proof -
  obtain k where k: "k \<in> set (group_keys df)" "r_x r = stat (map r_x (group_rows df k))"
    using r by (auto simp add: dropna_def aggregate_def Let_def)
  obtain c a r' where "stat (map r_x (group_rows df k)) = Fin c" "a \<le> c" "r' \<in> set df" "r_x r' = Fin a"
    using group_x_between[OF stat fin k(1)] by blast
  then show ?thesis using k(2) by auto
qed

lemma reduce_frame_mean:
  assumes "strategy = ''y_mean'' \<or> strategy = ''slope_mean''"
  shows "reduce_frame df strategy logdomain =
             (if logdomain then exp_columns (dropna (aggregate group_mean (log_columns df)))
              else dropna (aggregate group_mean df))"
  using assms by (elim disjE) (simp_all add: reduce_frame_def)

lemma reduce_frame_median:
  assumes "strategy = ''y_median'' \<or> strategy = ''slope_median''"
  shows "reduce_frame df strategy logdomain =
             (if logdomain then exp_columns (dropna (aggregate group_median (log_columns df)))
              else dropna (aggregate group_median df))"
  using assms by (elim disjE) (simp_all add: reduce_frame_def)

lemma reduce_frame_stat:
  assumes "strategy = ''y_mean'' \<or> strategy = ''y_median'' \<or> strategy = ''slope_mean'' \<or>
           strategy = ''slope_median''"
  shows "\<exists>stat. (stat = group_mean \<or> stat = group_median) \<and>
           reduce_frame df strategy logdomain =
             (if logdomain then exp_columns (dropna (aggregate stat (log_columns df)))
              else dropna (aggregate stat df))"
proof -
  consider "strategy = ''y_mean'' \<or> strategy = ''slope_mean''"
    | "strategy = ''y_median'' \<or> strategy = ''slope_median''"
    using assms by blast
  then show ?thesis
  proof cases
    case 1
    show ?thesis using reduce_frame_mean[OF 1] by blast
  next
    case 2
    show ?thesis using reduce_frame_median[OF 2] by blast
  qed
qed

lemma np_exp_mono: "np_less u v \<Longrightarrow> np_less (np_exp u) (np_exp v)"
  by (cases u; cases v) simp_all

lemma reduced_x:
  assumes strategy: "strategy = ''y_mean'' \<or> strategy = ''y_median'' \<or>
           strategy = ''slope_mean'' \<or> strategy = ''slope_median''"
    and pos: "\<forall>r\<in>set df. \<exists>a. r_x r = Fin a \<and> 0 < a"
    and ord: "\<And>r r' j k a b. r \<in> set df \<Longrightarrow> r' \<in> set df \<Longrightarrow> r_bin r = Some j \<Longrightarrow>
        r_bin r' = Some k \<Longrightarrow> j < k \<Longrightarrow> r_x r = Fin a \<Longrightarrow> r_x r' = Fin b \<Longrightarrow> a < b"
  shows "sorted_wrt np_less (map r_x (reduce_frame df strategy logdomain)) \<and>
         (\<forall>r\<in>set (reduce_frame df strategy logdomain). \<exists>c. r_x r = Fin c \<and> 0 < c)"
proof -
  obtain stat where stat: "stat = group_mean \<or> stat = group_median"
    and red: "reduce_frame df strategy logdomain =
             (if logdomain then exp_columns (dropna (aggregate stat (log_columns df)))
              else dropna (aggregate stat df))"
    using reduce_frame_stat[OF strategy] by blast
  show ?thesis
  proof (cases logdomain)
    case False
    have fin: "\<forall>r\<in>set df. \<exists>a. r_x r = Fin a" using pos by blast
    have s: "sorted_wrt np_less (map r_x (dropna (aggregate stat df)))"
      using stat fin ord by (rule aggregated_x_sorted)
    have p: "\<exists>c. r_x r = Fin c \<and> 0 < c" if r: "r \<in> set (dropna (aggregate stat df))" for r
    proof -
      obtain c a r' where c: "r_x r = Fin c" "a \<le> c" "r' \<in> set df" "r_x r' = Fin a"
        using aggregated_x_lower[OF stat fin r] by blast
      obtain a' where "r_x r' = Fin a'" "0 < a'" using pos c(3) by blast
      then have "0 < a" using c(4) by simp
      then show ?thesis using c(1,2) by simp
    qed
    show ?thesis using False red s p by simp
  next
    case True
    let ?dl = "log_columns df"
    have fin: "\<forall>r\<in>set ?dl. \<exists>a. r_x r = Fin a"
    proof
      fix r assume "r \<in> set ?dl"
      then obtain q where q: "q \<in> set df" "r_x r = np_log (r_x q)"
        by (auto simp add: log_columns_def)
      obtain u where "r_x q = Fin u" "0 < u" using pos q(1) by blast
      then show "\<exists>a. r_x r = Fin a" using q(2) by simp
    qed
    have ord': "a < b" if h: "r \<in> set ?dl" "r' \<in> set ?dl" "r_bin r = Some j" "r_bin r' = Some k"
        "j < k" "r_x r = Fin a" "r_x r' = Fin b" for r r' j k a b
    proof -
      obtain q where q: "q \<in> set df" "r = q\<lparr>r_x := np_log (r_x q), r_y := np_log (r_y q)\<rparr>"
        using h(1) by (auto simp add: log_columns_def)
      obtain q' where q': "q' \<in> set df" "r' = q'\<lparr>r_x := np_log (r_x q'), r_y := np_log (r_y q')\<rparr>"
        using h(2) by (auto simp add: log_columns_def)
      obtain u where u: "r_x q = Fin u" "0 < u" using pos q(1) by blast
      obtain v where v: "r_x q' = Fin v" "0 < v" using pos q'(1) by blast
      have "u < v" using ord[OF q(1) q'(1) _ _ h(5) u(1) v(1)] h(3,4) q(2) q'(2) by simp
      then have "ln u < ln v" using u(2) by simp
      moreover have "a = ln u" "b = ln v" using h(6,7) q(2) q'(2) u v by simp_all
      ultimately show ?thesis by simp
    qed
    have s: "sorted_wrt np_less (map r_x (dropna (aggregate stat ?dl)))"
      using stat fin ord' by (rule aggregated_x_sorted)
    have mp: "map r_x (exp_columns d) = map np_exp (map r_x d)" for d
      by (simp add: exp_columns_def)
    have s': "sorted_wrt np_less (map r_x (exp_columns (dropna (aggregate stat ?dl))))"
      unfolding mp using s by (simp add: sorted_wrt_map sorted_wrt_mono_rel[rotated] np_exp_mono)
    have p: "\<exists>c. r_x r = Fin c \<and> 0 < c" if r: "r \<in> set (exp_columns (dropna (aggregate stat ?dl)))" for r
    proof -
      obtain q where q: "q \<in> set (dropna (aggregate stat ?dl))" "r_x r = np_exp (r_x q)"
        using r by (auto simp add: exp_columns_def)
      obtain c where "r_x q = Fin c" using aggregated_x_lower[OF stat fin q(1)] by blast
      then show ?thesis using q(2) by simp
    qed
    show ?thesis using True red s' p by simp
  qed
qed


subsection \<open>The frame after binning\<close>

lemma make_frame_x:
  assumes "make_frame xs ys fp strategy = Inr df" and "r \<in> set df"
  shows "\<exists>x\<in>set xs. r_x r = Fin x"
proof (cases fp)
  case None
  then have "df = map (\<lambda>(x, y). \<lparr>r_x = Fin x, r_y = Fin y, r_slope = None, r_bin = None\<rparr>) (zip xs ys)"
    using assms(1) by (auto simp add: make_frame_def split: if_splits)
  then show ?thesis using assms(2) by (auto dest: set_zip_leftD)
next
  case (Some p)
  then have len: "length xs = length ys"
    using assms(1) by (auto simp add: make_frame_def Let_def split: if_splits)
  obtain x0 y0 where p: "p = (x0, y0)" by (cases p)
  have "df = map (\<lambda>(x, y). \<lparr>r_x = Fin x, r_y = Fin y,
               r_slope = Some (calculate_slope (x0, y0\<^sup>2) (x, y)), r_bin = None\<rparr>) (zip xs ys)"
    using assms(1) make_frame_Some[OF len, of x0 y0 strategy] Some p by simp
  then show ?thesis using assms(2) by (auto dest: set_zip_leftD)
qed



lemma bin_by_values_InrD:
  assumes "bin_by_values df xrange n scale = Inr (df', groups, bins)"
  shows "\<exists>bs. cut (map r_x df) bins = Inr bs \<and> length bs = length df \<and>
           df' = map (\<lambda>(r, b). r\<lparr>r_bin := b\<rparr>) (zip df bs)"
proof -
  define edges where "edges = (case scale of
              Log \<Rightarrow> np_logspace (np_log (Fin (fst xrange))) (np_log (Fin (snd xrange))) n
            | Linear \<Rightarrow> np_linspace (Fin (fst xrange)) (Fin (snd xrange)) n)"
  have unf: "bin_by_values df xrange n scale =
     (case edges of
        Inl e \<Rightarrow> Inl e
      | Inr bins \<Rightarrow>
          (case cut (map r_x df) bins of
             Inl e \<Rightarrow> Inl e
           | Inr bs \<Rightarrow>
               let df' = map (\<lambda>(r, b). r\<lparr>r_bin := b\<rparr>) (zip df bs);
                   binned_indices = map (\<lambda>k. (k, group_indices df' k)) (group_keys df')
               in Inr (df', binned_indices, bins)))"
    unfolding bin_by_values_def edges_def ..
  obtain bins' where e: "edges = Inr bins'"
    using assms unfolding unf by (cases edges) simp_all
  obtain bs where c: "cut (map r_x df) bins' = Inr bs"
    using assms unfolding unf e by (cases "cut (map r_x df) bins'") simp_all
  have "bins' = bins" "df' = map (\<lambda>(r, b). r\<lparr>r_bin := b\<rparr>) (zip df bs)"
    using assms c by (simp_all add: unf e Let_def)
  moreover have "length bs = length df" using cut_InrD[OF c] by simp
  ultimately show ?thesis using c by blast
qed


subsection \<open>Order and sign of the binned x values\<close>

lemma binned_frame:
  assumes fr: "make_frame xs ys fp strategy = Inr df"
    and bv: "bin_by_values df xrange n scale = Inr (df', groups, bins)"
    and pos: "\<forall>x\<in>set xs. 0 < x"
  shows "(\<forall>r\<in>set df'. \<exists>a. r_x r = Fin a \<and> 0 < a) \<and>
         (\<forall>r\<in>set df'. \<forall>r'\<in>set df'. \<forall>j k a b. r_bin r = Some j \<longrightarrow> r_bin r' = Some k \<longrightarrow> j < k \<longrightarrow>
             r_x r = Fin a \<longrightarrow> r_x r' = Fin b \<longrightarrow> a < b)"
proof -
  obtain bs where bs: "cut (map r_x df) bins = Inr bs" "length bs = length df"
      "df' = map (\<lambda>(r, b). r\<lparr>r_bin := b\<rparr>) (zip df bs)"
    using bin_by_values_InrD[OF bv] by blast
  have len: "length df' = length df" using bs(2,3) by simp
  have nthx: "r_x (df' ! i) = r_x (df ! i)" if "i < length df" for i
    using that bs(2,3) by simp
  have nthb: "r_bin (df' ! i) = bs ! i" if "i < length df" for i
    using that bs(2,3) by simp
  have idx: "\<exists>i<length df. r = df' ! i" if "r \<in> set df'" for r
    using that len by (auto simp add: in_set_conv_nth)
  have p: "\<exists>a. r_x r = Fin a \<and> 0 < a" if r: "r \<in> set df'" for r
  proof -
    obtain i where i: "i < length df" "r = df' ! i"
      using idx[OF r] by blast
    have "df ! i \<in> set df" using i(1) by simp
    then obtain x where x: "x \<in> set xs" "r_x (df ! i) = Fin x"
      using make_frame_x[OF fr] by blast
    have "0 < x" using pos x(1) by blast
    then show ?thesis using x(2) nthx[OF i(1)] i(2) by simp
  qed
  have o: "a < b" if h: "r \<in> set df'" "r' \<in> set df'" "r_bin r = Some j" "r_bin r' = Some k" "j < k"
     "r_x r = Fin a" "r_x r' = Fin b" for r r' j k a b
  proof -
    obtain i where i: "i < length df" "r = df' ! i"
      using idx[OF h(1)] by blast
    obtain i' where i': "i' < length df" "r' = df' ! i'"
      using idx[OF h(2)] by blast
    show ?thesis
    proof (rule cut_order[OF bs(1)])
      show "i < length (map r_x df)" "i' < length (map r_x df)" using i i' by simp_all
      show "map r_x df ! i = Fin a" using nthx[OF i(1)] i h(6) by simp
      show "map r_x df ! i' = Fin b" using nthx[OF i'(1)] i' h(7) by simp
      show "bs ! i = Some j" using nthb[OF i(1)] i(2) h(3) by simp
      show "bs ! i' = Some k" using nthb[OF i'(1)] i'(2) h(4) by simp
      show "j < k" by (rule h(5))
    qed
  qed
  show ?thesis
  proof (intro conjI ballI allI impI)
    fix r assume "r \<in> set df'" then show "\<exists>a. r_x r = Fin a \<and> 0 < a" by (rule p)
  next
    fix r r' j k a b
    assume "r \<in> set df'" "r' \<in> set df'" "r_bin r = Some j" "r_bin r' = Some k" "j < k"
     "r_x r = Fin a" "r_x r' = Fin b"
    then show "a < b" by (rule o)
  qed
qed


subsection \<open>The grid of the fits\<close>

lemma cut_duplicate_edges:
  assumes "\<not> distinct bins" and "length bins \<noteq> 2"
  shows "cut xs bins = Inl ValueError"
  using assms by (simp add: cut_def)

lemma degenerate_range:
  assumes "0 < lo" and "3 \<le> n"
  shows "bin_by_values df (lo, lo) n Log = Inl ValueError"
proof -
  define m where "m = nat (n - 1)"
  have m: "2 \<le> m" using assms(2) by (simp add: m_def)
  define bins where "bins = map (\<lambda>i. Fin (exp (ln lo + real i * ((ln lo - ln lo) / real_of_int (n - 1))))) [0..<m] @ [Fin (exp (ln lo))]"
  have edges: "np_logspace (np_log (Fin lo)) (np_log (Fin lo)) n = Inr bins"
    using assms by (simp add: np_logspace_Fin bins_def m_def)
  have "[0..<m] = 0 # Suc 0 # [Suc (Suc 0)..<m]"
    using m by (simp add: upt_conv_Cons)
  then have "bins = Fin lo # Fin lo # map (\<lambda>i. Fin lo) [Suc (Suc 0)..<m] @ [Fin lo]"
    using assms(1) by (simp add: bins_def)
  then have "\<not> distinct bins" "length bins \<noteq> 2" by simp_all
  then have "cut xs bins = Inl ValueError" for xs by (rule cut_duplicate_edges)
  then show ?thesis
    by (simp add: bin_by_values_def edges del: np_log.simps)
qed

lemma shrunk_logspace:
  assumes lo: "0 < lo" and hi: "lo \<le> hi" and strict: "2 \<le> nbins \<Longrightarrow> lo < hi"
    and ls: "np_logspace (fst (shrink_range (lo, hi) nbins)) (snd (shrink_range (lo, hi) nbins)) nbins
              = Inr xs'"
  shows "sorted_wrt np_less xs' \<and> (\<forall>v\<in>set xs'. \<exists>c. v = Fin c \<and> 0 < c)"
proof -
  have hi0: "0 < hi" using lo hi by simp
  consider "nbins < 0" | "nbins = 0" | "nbins = 1" | "2 \<le> nbins" by linarith
  then show ?thesis
  proof cases
    case 1
    then show ?thesis using ls by (simp add: np_logspace_neg)
  next
    case 2
    then show ?thesis using ls by (simp add: np_logspace_zero)
  next
    case 3
    have "\<exists>a b. shrink_range (lo, hi) nbins = (Fin a, Fin b)"
      using 3 lo hi0 by (simp add: shrink_range_def np_sub_def Let_def)
    then obtain a b where "shrink_range (lo, hi) nbins = (Fin a, Fin b)" by blast
    then have "xs' = [Fin (exp a)]" using ls 3 by (simp add: np_logspace_Fin_one)
    then show ?thesis by simp
  next
    case 4
    define w where "w = (ln hi - ln lo) / real_of_int nbins"
    define a where "a = ln lo + w / 2"
    define b where "b = ln hi - w / 2"
    define m where "m = nat (nbins - 1)"
    have m: "0 < m" "real_of_int (nbins - 1) = real m" using 4 by (simp_all add: m_def)
    have sr: "shrink_range (lo, hi) nbins = (Fin a, Fin b)"
      using 4 lo hi0 by (simp add: shrink_range_def np_sub_def Let_def a_def b_def w_def)
    have d: "0 < ln hi - ln lo" using strict[OF 4] lo by simp
    have "w \<le> (ln hi - ln lo) / 2"
      unfolding w_def using 4 d by (intro divide_left_mono) simp_all
    then have "w < ln hi - ln lo" using d by simp
    then have ab: "a < b" by (simp add: a_def b_def)
    have "xs' = map (\<lambda>i. Fin (exp (a + real i * ((b - a) / real m)))) [0..<m] @ [Fin (exp b)]"
      using ls 4 unfolding sr fst_conv snd_conv np_logspace_Fin[OF 4] m(2) by (simp add: m_def)
    then show ?thesis using log_edges_sorted[OF ab m(1)] by auto
  qed
qed


subsection \<open>What a returning call has computed\<close>

lemma bin_and_average_InrD:
  assumes "bin_and_average cf sp xs ys fp nbins ypower add_after strategy ld = Inr r"
  shows "xs \<noteq> [] \<and> strategy \<in> set strats \<and>
    (\<exists>df df' groups bins xys.
       make_frame xs ys fp strategy = Inr df \<and>
       bin_by_values df (Min (set xs), Max (set xs)) (nbins + 1) Log = Inr (df', groups, bins) \<and>
       strategy_values cf sp (reduce_frame df' strategy ld) ys (Min (set xs), Max (set xs)) fp
         nbins ypower strategy = Inr xys \<and>
       r = \<lparr>agg_xs = fst (insert_points add_after xys), agg_ys = snd (insert_points add_after xys),
            agg_bins = bins, agg_groups = group_points xs ys groups\<rparr>)"
proof -
  have ne: "xs \<noteq> []" using assms by (auto simp add: bin_and_average_def)
  obtain df where df: "make_frame xs ys fp strategy = Inr df"
    using assms ne by (cases "make_frame xs ys fp strategy") (simp_all add: bin_and_average_def)
  have st: "strategy \<in> set strats"
    using assms ne df by (auto simp add: bin_and_average_def Let_def split: if_splits)
  obtain df' groups bins where bv:
    "bin_by_values df (Min (set xs), Max (set xs)) (nbins + 1) Log = Inr (df', groups, bins)"
    using assms ne df st
    by (cases "bin_by_values df (Min (set xs), Max (set xs)) (nbins + 1) Log")
       (auto simp add: bin_and_average_def Let_def)
  obtain xys where sv: "strategy_values cf sp (reduce_frame df' strategy ld) ys
      (Min (set xs), Max (set xs)) fp nbins ypower strategy = Inr xys"
    using assms ne df st bv
    by (cases "strategy_values cf sp (reduce_frame df' strategy ld) ys
      (Min (set xs), Max (set xs)) fp nbins ypower strategy")
       (simp_all add: bin_and_average_def Let_def)
  have "r = \<lparr>agg_xs = fst (insert_points add_after xys), agg_ys = snd (insert_points add_after xys),
            agg_bins = bins, agg_groups = group_points xs ys groups\<rparr>"
    using assms ne df st bv sv by (simp add: bin_and_average_def Let_def)
  then show ?thesis using ne st df bv sv by blast
qed

lemma strategy_values_reduced:
  assumes "strategy = ''y_mean'' \<or> strategy = ''y_median'' \<or> strategy = ''slope_mean'' \<or>
           strategy = ''slope_median''"
    and "strategy_values cf sp df ys xrange fp nbins ypower strategy = Inr xys"
  shows "fst xys = map r_x df"
  using assms(2) assms(1)
  by (elim disjE) (auto simp add: strategy_values_def split: option.splits)

lemma strategy_values_grid:
  assumes "strategy = ''fit'' \<or> strategy = ''spline''"
    and "strategy_values cf sp df ys xrange fp nbins ypower strategy = Inr xys"
  shows "np_logspace (fst (shrink_range xrange nbins)) (snd (shrink_range xrange nbins)) nbins
           = Inr (fst xys)"
  using assms(2) assms(1)
  by (elim disjE) (auto simp add: strategy_values_def Let_def split: option.splits sum.splits if_splits)


subsection \<open>The supported strategies\<close>

lemma strats_cases:
  assumes "strategy \<in> set strats"
  shows "(strategy = ''y_mean'' \<or> strategy = ''y_median'' \<or> strategy = ''slope_mean'' \<or>
           strategy = ''slope_median'') \<or> (strategy = ''fit'' \<or> strategy = ''spline'')"
proof -
  have "strategy = ''y_mean'' \<or> strategy = ''y_median'' \<or> strategy = ''slope_mean'' \<or>
        strategy = ''slope_median'' \<or> strategy = ''fit'' \<or> strategy = ''spline''"
    using assms unfolding strats_def set_simps insert_iff empty_iff by (elim disjE) (simp_all only: simp_thms)
  then show ?thesis by (elim disjE) (simp_all only: simp_thms)
qed


subsection \<open>Calls that return\<close>

lemma log_binning_returns:
  assumes "0 < lo" and "lo < hi" and "2 \<le> n"
  shows "\<exists>res. bin_by_values df (lo, hi) n Log = Inr res"
proof -
  define m where "m = nat (n - 1)"
  define bins where
    "bins = map (\<lambda>i. Fin (exp (ln lo + real i * ((ln hi - ln lo) / real m)))) [0..<m] @ [Fin (exp (ln hi))]"
  have m: "0 < m" "real m = real_of_int (n - 1)"
    using assms(3) by (simp_all add: m_def)
  have lohi: "0 < hi" "ln lo < ln hi" using assms by simp_all
  have edges: "np_logspace (np_log (Fin lo)) (np_log (Fin hi)) n = Inr bins"
    using assms lohi(1) m(2) by (simp add: np_logspace_Fin bins_def m_def)
  have srt: "sorted_wrt np_less bins"
    unfolding bins_def using lohi(2) m(1) by (rule log_edges_sorted)
  have nn: "NaN \<notin> set bins" by (auto simp add: bins_def)
  have "bins \<noteq> []" by (simp add: bins_def)
  then have "\<exists>bs. cut (map r_x df) bins = Inr bs"
    using cut_Inr[OF strictly_sorted_monotonic[OF srt nn] strictly_sorted_distinct[OF srt]]
    by blast
  then obtain bs where "cut (map r_x df) bins = Inr bs" by blast
  then show ?thesis
    by (simp add: bin_by_values_def edges Let_def del: np_log.simps)
qed


subsection \<open>Values of the four bucket strategies\<close>

lemma strategy_values_y:
  assumes "strategy = ''y_mean'' \<or> strategy = ''y_median''"
  shows "strategy_values cf sp df ys xrange fp nbins ypower strategy =
     Inr (map r_x df, map (\<lambda>r. array_pow (r_y r) ypower) df)"
  using assms by (simp add: strategy_values_def)

lemma strategy_values_slope:
  assumes "strategy = ''slope_mean'' \<or> strategy = ''slope_median''"
  shows "strategy_values cf sp df ys xrange (Some fp) nbins ypower strategy =
     Inr (map r_x df,
          map (\<lambda>r. array_pow (eval_power_function (r_x r) (slope_of r) fp) (1 / 2)) df)"
  using assms by (elim disjE) (simp_all add: strategy_values_def)

lemma make_frame_returns:
  assumes "length xs = length ys" and "strategy \<noteq> ''slope''"
  shows "\<exists>df. make_frame xs ys fp strategy = Inr df"
proof (cases fp)
  case None
  then show ?thesis using make_frame_None[OF assms] by simp
next
  case (Some p)
  then show ?thesis using make_frame_Some[OF assms(1), of "fst p" "snd p" strategy] by simp
qed


subsection \<open>Calls of the bucket strategies return\<close>

lemma bin_and_average_returns:
  assumes ne: "xs \<noteq> []" and len: "length xs = length ys"
    and pos: "\<forall>x\<in>set xs. 0 < x" and rng: "Min (set xs) < Max (set xs)" and nb: "1 \<le> nbins"
    and st: "strategy = ''y_mean'' \<or> strategy = ''y_median'' \<or>
             (fp \<noteq> None \<and> (strategy = ''slope_mean'' \<or> strategy = ''slope_median''))"
  shows "\<exists>r. bin_and_average cf sp xs ys fp nbins ypower add_after strategy ld = Inr r"
proof -
  have sin: "strategy \<in> set strats"
    using st by (elim disjE conjE) (simp_all add: strats_def)
  have "strategy \<noteq> ''slope''"
    using st by (elim disjE conjE) simp_all
  then obtain df where df: "make_frame xs ys fp strategy = Inr df"
    using make_frame_returns[OF len] by blast
  have "Min (set xs) \<in> set xs" using ne by (intro Min_in) simp_all
  then have lo: "0 < Min (set xs)" using pos by blast
  obtain df' groups bins where bv:
      "bin_by_values df (Min (set xs), Max (set xs)) (nbins + 1) Log = Inr (df', groups, bins)"
  proof -
    have "2 \<le> nbins + 1" using nb by simp
    from log_binning_returns[OF lo rng this, of df]
    obtain res where "bin_by_values df (Min (set xs), Max (set xs)) (nbins + 1) Log = Inr res"
      by blast
    then show ?thesis using that by (cases res) auto
  qed
  let ?sv = "strategy_values cf sp (reduce_frame df' strategy ld) ys (Min (set xs), Max (set xs)) fp
      nbins ypower strategy"
  have "\<exists>xys. ?sv = Inr xys"
  proof -
    consider "strategy = ''y_mean'' \<or> strategy = ''y_median''"
      | p where "fp = Some p" "strategy = ''slope_mean'' \<or> strategy = ''slope_median''"
      using st by blast
    then show ?thesis
    proof cases
      case 1
      show ?thesis unfolding strategy_values_y[OF 1] by blast
    next
      case 2
      show ?thesis unfolding 2(1) strategy_values_slope[OF 2(2)] by blast
    qed
  qed
  then obtain xys where sv: "?sv = Inr xys" by blast
  have "bin_and_average cf sp xs ys fp nbins ypower add_after strategy ld =
      Inr \<lparr>agg_xs = fst (insert_points add_after xys), agg_ys = snd (insert_points add_after xys),
            agg_bins = bins, agg_groups = group_points xs ys groups\<rparr>"
    unfolding bin_and_average_def using ne df sin bv sv by (simp add: Let_def)
  then show ?thesis by blast
qed


subsection \<open>Ascending and positive x values\<close>

text \<open>
  C5. For every PointSet whose x are all strictly positive and every strategy, with no
  \<open>add_after\<close> points, the x-values of the curve that \<open>bin_and_average\<close> returns
  are strictly ascending and strictly positive (finite) numbers. A call with an
  unsupported strategy returns nothing, a call of \<open>fit\<close> or \<open>spline\<close> returns when
  scipy's fit does, and a call of one of the four bucket strategies does return for samples
  with two different x at least, as many y as x, and \<open>nbins >= 1\<close> (a slope strategy
  with its fixed point).
\<close>

theorem aggregated_x_ascending:
  assumes pos: "\<forall>x\<in>set xs. 0 < x"
  shows "(\<forall>r. bin_and_average cf sp xs ys fp nbins ypower None strategy ld = Inr r \<longrightarrow>
            sorted_wrt np_less (agg_xs r) \<and> (\<forall>v\<in>set (agg_xs r). \<exists>c. v = Fin c \<and> 0 < c)) \<and>
         (xs \<noteq> [] \<and> length xs = length ys \<and> Min (set xs) < Max (set xs) \<and> 1 \<le> nbins \<and>
          (strategy = ''y_mean'' \<or> strategy = ''y_median'' \<or>
             (fp \<noteq> None \<and> (strategy = ''slope_mean'' \<or> strategy = ''slope_median''))) \<longrightarrow>
            (\<exists>r. bin_and_average cf sp xs ys fp nbins ypower None strategy ld = Inr r))"
proof (rule conjI, rule allI, rule impI)
  fix r
  assume res: "bin_and_average cf sp xs ys fp nbins ypower None strategy ld = Inr r"
  let ?lo = "Min (set xs)" and ?hi = "Max (set xs)"
  obtain df df' groups bins xys where
    ne: "xs \<noteq> []" and st: "strategy \<in> set strats"
    and df: "make_frame xs ys fp strategy = Inr df"
    and bv: "bin_by_values df (?lo, ?hi) (nbins + 1) Log = Inr (df', groups, bins)"
    and sv: "strategy_values cf sp (reduce_frame df' strategy ld) ys (?lo, ?hi) fp nbins ypower strategy = Inr xys"
    and r: "r = \<lparr>agg_xs = fst (insert_points None xys), agg_ys = snd (insert_points None xys),
            agg_bins = bins, agg_groups = group_points xs ys groups\<rparr>"
    using bin_and_average_InrD[OF res] by blast
  have xs': "agg_xs r = fst xys" using r by (simp add: insert_points_None)
  have lo_in: "?lo \<in> set xs" using ne by (intro Min_in) simp_all
  have lo: "0 < ?lo" using pos lo_in by blast
  have lohi: "?lo \<le> ?hi" using ne by simp
  show "sorted_wrt np_less (agg_xs r) \<and> (\<forall>v\<in>set (agg_xs r). \<exists>c. v = Fin c \<and> 0 < c)"
    (is ?ordered)
  proof (rule disjE[OF strats_cases[OF st]])
    assume reduced: "strategy = ''y_mean'' \<or> strategy = ''y_median'' \<or> strategy = ''slope_mean'' \<or>
           strategy = ''slope_median''"
    have bf: "(\<forall>r\<in>set df'. \<exists>a. r_x r = Fin a \<and> 0 < a) \<and>
         (\<forall>r\<in>set df'. \<forall>r'\<in>set df'. \<forall>j k a b. r_bin r = Some j \<longrightarrow> r_bin r' = Some k \<longrightarrow> j < k \<longrightarrow>
             r_x r = Fin a \<longrightarrow> r_x r' = Fin b \<longrightarrow> a < b)"
      using df bv pos by (rule binned_frame)
    have "sorted_wrt np_less (map r_x (reduce_frame df' strategy ld)) \<and>
         (\<forall>r\<in>set (reduce_frame df' strategy ld). \<exists>c. r_x r = Fin c \<and> 0 < c)"
    proof (rule reduced_x[OF reduced])
      show "\<forall>r\<in>set df'. \<exists>a. r_x r = Fin a \<and> 0 < a" using bf by blast
    next
      fix r r' j k a b
      assume "r \<in> set df'" "r' \<in> set df'" "r_bin r = Some j" "r_bin r' = Some k" "j < k"
        "r_x r = Fin a" "r_x r' = Fin b"
      then show "a < b" using bf by blast
    qed
    then show ?ordered
      unfolding xs' strategy_values_reduced[OF reduced sv] by simp
  next
    assume grid: "strategy = ''fit'' \<or> strategy = ''spline''"
    have ls: "np_logspace (fst (shrink_range (?lo, ?hi) nbins)) (snd (shrink_range (?lo, ?hi) nbins)) nbins
           = Inr (fst xys)"
      using grid sv by (rule strategy_values_grid)
    have strict: "?lo < ?hi" if "2 \<le> nbins"
    proof (rule ccontr)
      assume "\<not> ?lo < ?hi"
      then have "?hi = ?lo" using lohi by simp
      then have "bin_by_values df (?lo, ?hi) (nbins + 1) Log = Inl ValueError"
        using degenerate_range[OF lo, of "nbins + 1" df] that by simp
      then show False using bv by simp
    qed
    show ?ordered
      unfolding xs' using lo lohi strict ls by (rule shrunk_logspace)
  qed
next
  show "xs \<noteq> [] \<and> length xs = length ys \<and> Min (set xs) < Max (set xs) \<and> 1 \<le> nbins \<and>
          (strategy = ''y_mean'' \<or> strategy = ''y_median'' \<or>
             (fp \<noteq> None \<and> (strategy = ''slope_mean'' \<or> strategy = ''slope_median''))) \<longrightarrow>
            (\<exists>r. bin_and_average cf sp xs ys fp nbins ypower None strategy ld = Inr r)"
  proof (rule impI)
  assume a: "xs \<noteq> [] \<and> length xs = length ys \<and> Min (set xs) < Max (set xs) \<and> 1 \<le> nbins \<and>
          (strategy = ''y_mean'' \<or> strategy = ''y_median'' \<or>
             (fp \<noteq> None \<and> (strategy = ''slope_mean'' \<or> strategy = ''slope_median'')))"
  show "\<exists>r. bin_and_average cf sp xs ys fp nbins ypower None strategy ld = Inr r"
  proof (rule bin_and_average_returns)
    show "xs \<noteq> []" "length xs = length ys" "Min (set xs) < Max (set xs)" "1 \<le> nbins"
      using a by simp_all
    show "\<forall>x\<in>set xs. 0 < x" by (rule pos)
    show "strategy = ''y_mean'' \<or> strategy = ''y_median'' \<or>
             (fp \<noteq> None \<and> (strategy = ''slope_mean'' \<or> strategy = ''slope_median''))"
      using a by simp
  qed
  qed
qed


lemma edges_1_2_4: "np_logspace (Fin 0) (Fin (ln 4)) 3 = Inr [Fin 1, Fin 2, Fin 4]"
proof -
  have u: "[0..<2] = [0, Suc 0]" by (simp add: upt_conv_Cons)
  have h: "ln (4::real) / 2 = ln 2" by (simp add: ln4)
  show ?thesis
    by (simp add: np_logspace_Fin u h)
qed

lemma run_y_mean_1_4:
  "bin_and_average cf sp [1, 4] [9, 16] None 2 (1 / 2) None ''y_mean'' False =
     Inr \<lparr>agg_xs = [Fin 1, Fin 4], agg_ys = [Fin 3, Fin 4], agg_bins = [Fin 1, Fin 2, Fin 4],
          agg_groups = [[(1, 9)], [(4, 16)]]\<rparr>"
proof -
  have fr: "make_frame [1, 4] [9, 16] None ''y_mean'' =
      Inr [\<lparr>r_x = Fin 1, r_y = Fin 9, r_slope = None, r_bin = None\<rparr>,
           \<lparr>r_x = Fin 4, r_y = Fin 16, r_slope = None, r_bin = None\<rparr>]"
    by (simp add: make_frame_def)
  have ct: "cut [Fin 1, Fin 4] [Fin 1, Fin 2, Fin 4] = Inr [Some 0, Some 1]"
    by (simp add: cut_def monotonic_increasing_def searchsorted_left_def)
  have bv: "bin_by_values [\<lparr>r_x = Fin 1, r_y = Fin 9, r_slope = None, r_bin = None\<rparr>,
           \<lparr>r_x = Fin 4, r_y = Fin 16, r_slope = None, r_bin = None\<rparr>] (1, 4) 3 Log =
      Inr ([\<lparr>r_x = Fin 1, r_y = Fin 9, r_slope = None, r_bin = Some 0\<rparr>,
            \<lparr>r_x = Fin 4, r_y = Fin 16, r_slope = None, r_bin = Some 1\<rparr>],
           [(0, [0]), (1, [1])], [Fin 1, Fin 2, Fin 4])"
    by (simp add: bin_by_values_def edges_1_2_4 ct group_keys_def group_indices_def)
  have rd: "reduce_frame [\<lparr>r_x = Fin 1, r_y = Fin 9, r_slope = None, r_bin = Some 0\<rparr>,
            \<lparr>r_x = Fin 4, r_y = Fin 16, r_slope = None, r_bin = Some (Suc 0)\<rparr>] ''y_mean'' False =
       [\<lparr>r_x = Fin 1, r_y = Fin 9, r_slope = None, r_bin = Some 0\<rparr>,
        \<lparr>r_x = Fin 4, r_y = Fin 16, r_slope = None, r_bin = Some (Suc 0)\<rparr>]"
    by (simp add: reduce_frame_def aggregate_def group_keys_def group_rows_def group_mean_def
      skipna_def np_sum_def dropna_def)
  have sq: "sqrt 9 = 3" "sqrt 16 = 4"
    using real_sqrt_abs[of 3] real_sqrt_abs[of 4] by simp_all
  show ?thesis
    by (simp add: bin_and_average_def fr strats_def bv rd strategy_values_y insert_points_None
        group_points_def array_pow_def sq Let_def)
qed

theorem aggregated_x_ascending_witness:
  "\<exists>r. bin_and_average (\<lambda>fp xs ys. Inl ValueError) (\<lambda>xs ys t. Inl ValueError)
          [1, 4] [9, 16] None 2 (1 / 2) None ''y_mean'' False = Inr r \<and>
       agg_xs r = [Fin 1, Fin 4] \<and>
       sorted_wrt np_less (agg_xs r) \<and> (\<forall>v\<in>set (agg_xs r). \<exists>c. v = Fin c \<and> 0 < c)"
proof -
  let ?r = "\<lparr>agg_xs = [Fin 1, Fin 4], agg_ys = [Fin 3, Fin 4], agg_bins = [Fin 1, Fin 2, Fin 4],
          agg_groups = [[(1, 9)], [(4, 16)]]\<rparr>"
  have run: "bin_and_average (\<lambda>fp xs ys. Inl ValueError) (\<lambda>xs ys t. Inl ValueError)
          [1, 4] [9, 16] None 2 (1 / 2) None ''y_mean'' False = Inr ?r"
    by (rule run_y_mean_1_4)
  have pos: "\<forall>x\<in>set [1, 4 :: real]. 0 < x" by simp
  note inst = aggregated_x_ascending[OF pos, of "\<lambda>fp xs ys. Inl ValueError"
        "\<lambda>xs ys t. Inl ValueError" "[9, 16]" None 2 "1 / 2" "''y_mean''" False]
  have "sorted_wrt np_less (agg_xs ?r) \<and> (\<forall>v\<in>set (agg_xs ?r). \<exists>c. v = Fin c \<and> 0 < c)"
    using spec[OF conjunct1[OF inst], of ?r] run by (rule mp)
  then show ?thesis using run by (intro exI[of _ ?r]) simp
qed


subsection \<open>Buckets whose slopes are all NaN\<close>










subsection \<open>No NaN after the slope strategies\<close>









subsection \<open>Samples that coincide with the fixed point\<close>





subsection \<open>Runs with a coinciding sample\<close>











subsection \<open>A run without a completed trial\<close>

lemma completed_none:
  assumes "nruns = 0 \<or> cancel = Some 0"
  shows "completed_trials nruns cancel = 0"
proof (cases cancel)
  case None
  then show ?thesis using assms by (simp add: completed_trials_def)
next
  case (Some k)
  then show ?thesis using assms by (auto simp add: completed_trials_def)
qed

lemma runner_run_none:
  assumes "nruns = 0 \<or> cancel = Some 0"
  shows "runner_run f nruns cancel = (0, ([], [], []))"
  unfolding runner_run_def completed_none[OF assms] by simp

text \<open>
  C9. When the runner completes zero trials (\<open>nruns = 0\<close>, or a cancellation before the
  first trial completes), the count it returns is 0 and the caller returns at once: after
  the two reads \<open>get_lists\<close> and \<open>get_descriptors\<close>, which come before the test of
  the count, it makes no other call, so no statistics, no estimation data, no aggregation
  (\<open>process_and_plot\<close>) and no saving.
\<close>

theorem no_trials_no_processing:
  assumes "nruns = 0 \<or> cancel = Some 0"
  shows "fst (runner_run f nruns cancel) = 0 \<and>
         sqe_evolution_multiple silent save f nruns cancel = (0, [Get_lists, Get_descriptors]) \<and>
         (\<forall>a\<in>set (snd (sqe_evolution_multiple silent save f nruns cancel)).
            a = Get_lists \<or> a = Get_descriptors)"
proof -
  have r: "runner_run f nruns cancel = (0, ([], [], []))"
    using assms by (rule runner_run_none)
  have s: "sqe_evolution_multiple silent save f nruns cancel = (0, [Get_lists, Get_descriptors])"
    unfolding sqe_evolution_multiple_def r by simp
  show ?thesis unfolding s r by simp
qed


theorem no_trials_no_processing_witness:
  "fst (runner_run (\<lambda>i. ([10, 20], [1 / 4, 1 / 9], [1, 1])) 5 (Some 0)) = 0 \<and>
   sqe_evolution_multiple False True (\<lambda>i. ([10, 20], [1 / 4, 1 / 9], [1, 1])) 5 (Some 0) =
     (0, [Get_lists, Get_descriptors]) \<and>
   sqe_evolution_multiple False True (\<lambda>i. ([10, 20], [1 / 4, 1 / 9], [1, 1])) 0 None =
     (0, [Get_lists, Get_descriptors])"
proof -
  let ?f = "\<lambda>i::nat. ([10, 20], [1 / 4, 1 / 9], [1, 1]) :: run_trace"
  have h1: "(5::nat) = 0 \<or> Some (0::nat) = Some 0" by simp
  have h2: "(0::nat) = 0 \<or> (None :: nat option) = Some 0" by simp
  note a = no_trials_no_processing[OF h1, of ?f False True]
  note b = no_trials_no_processing[OF h2, of ?f False True]
  show ?thesis
    using conjunct1[OF a] conjunct1[OF conjunct2[OF a]] conjunct1[OF conjunct2[OF b]]
    by (intro conjI)
qed

lemma two_trials_are_processed:
  "sqe_evolution_multiple True False (\<lambda>i. ([10, 20], [1 / 4, 1 / 9], [1, 1])) 5 (Some 2) =
     (2, [Get_lists, Get_descriptors,
          Create_estdata ([10, 20, 10, 20], [1 / 4, 1 / 9, 1 / 4, 1 / 9], [1, 1, 1, 1]),
          Process_and_plot ([10, 20, 10, 20], [1 / 4, 1 / 9, 1 / 4, 1 / 9], [1, 1, 1, 1])])"
proof -
  have c: "completed_trials 5 (Some 2) = 2" by (simp add: completed_trials_def)
  have u: "[0..<2] = [0, Suc 0]" by (simp add: upt_conv_Cons)
  have r: "runner_run (\<lambda>i. ([10, 20], [1 / 4, 1 / 9], [1, 1])) 5 (Some 2) =
      (2, ([10, 20, 10, 20], [1 / 4, 1 / 9, 1 / 4, 1 / 9], [1, 1, 1, 1]))"
    unfolding runner_run_def c Let_def u by (simp add: add_run_data_def)
  show ?thesis unfolding sqe_evolution_multiple_def r by simp
qed

end
